theory Spec2Isabelle
  imports Main "HOL-Library.Monad_Syntax"
begin

section \<open>The menu bar part of the workbench (menubarPart.ts)\<close>

text \<open>
  The theory embeds the parts of \<^verbatim>\<open>menubarPart.ts\<close> that carry state or compute a
  list: the modifier key tracker (\<^verbatim>\<open>ModifierKeyEmitter\<close>), the configuration getters,
  the focus state machine of \<^verbatim>\<open>MenubarPart\<close> and the construction of the action
  lists.  Calls into the DOM and into the services of the workbench are recorded as
  effects, in the order in which the source makes them.  A \<^verbatim>\<open>TypeError\<close> of the source
  (a property read on \<^verbatim>\<open>undefined\<close>) is the result \<open>None\<close>.
\<close>

subsection \<open>Values of the configuration store\<close>

text \<open>
  \<^verbatim>\<open>configurationService.getValue\<close> is typed by its caller only; at run time it returns
  whatever the settings hold.
\<close>

datatype js_value =
    JUndefined
  | JNull
  | JBoolean bool
  | JNumber int
  | JString string
  | JObject

text \<open>The \<^verbatim>\<open>typeof\<close> operator on these values.\<close>

fun typeof :: "js_value \<Rightarrow> string" where
  "typeof JUndefined = ''undefined''"
| "typeof JNull = ''object''"
| "typeof (JBoolean b) = ''boolean''"
| "typeof (JNumber n) = ''number''"
| "typeof (JString s) = ''string''"
| "typeof JObject = ''object''"

subsection \<open>The modifier key tracker\<close>

datatype ModifierKey = Alt | Ctrl | Shift

record IModifierKeyStatus =
  altKey :: bool
  shiftKey :: bool
  ctrlKey :: bool
  lastKeyPressed :: "ModifierKey option"
  lastKeyReleased :: "ModifierKey option"

text \<open>The three flags of a DOM keyboard event that the tracker reads.\<close>

record KeyboardEvent =
  ev_altKey :: bool
  ev_ctrlKey :: bool
  ev_shiftKey :: bool

text \<open>The \<^verbatim>\<open>_keyStatus\<close> the constructor of \<^verbatim>\<open>ModifierKeyEmitter\<close> starts from.\<close>

definition initial_keyStatus :: IModifierKeyStatus where
  "initial_keyStatus =
     \<lparr>altKey = False, shiftKey = False, ctrlKey = False,
      lastKeyPressed = None, lastKeyReleased = None\<rparr>"

text \<open>
  Each subscription returns the new \<^verbatim>\<open>_keyStatus\<close> and what it fired: \<open>Some\<close> of the
  status handed to \<^verbatim>\<open>fire\<close>, or \<open>None\<close> when it did not fire.
\<close>

definition keydown :: "KeyboardEvent \<Rightarrow> IModifierKeyStatus \<Rightarrow> IModifierKeyStatus \<times> IModifierKeyStatus option" where
  "keydown e ks =
     (let ks1 =
            (if ev_altKey e \<and> \<not> altKey ks then ks\<lparr>lastKeyPressed := Some Alt\<rparr>
             else if ev_ctrlKey e \<and> \<not> ctrlKey ks then ks\<lparr>lastKeyPressed := Some Ctrl\<rparr>
             else if ev_shiftKey e \<and> \<not> shiftKey ks then ks\<lparr>lastKeyPressed := Some Shift\<rparr>
             else ks\<lparr>lastKeyPressed := None\<rparr>);
          ks2 = ks1\<lparr>altKey := ev_altKey e, ctrlKey := ev_ctrlKey e, shiftKey := ev_shiftKey e\<rparr>
      in (ks2, if lastKeyPressed ks2 \<noteq> None then Some ks2 else None))"

definition keyup :: "KeyboardEvent \<Rightarrow> IModifierKeyStatus \<Rightarrow> IModifierKeyStatus \<times> IModifierKeyStatus option" where
  "keyup e ks =
     (let ks1 =
            (if \<not> ev_altKey e \<and> altKey ks then ks\<lparr>lastKeyReleased := Some Alt\<rparr>
             else if \<not> ev_ctrlKey e \<and> ctrlKey ks then ks\<lparr>lastKeyReleased := Some Ctrl\<rparr>
             else if \<not> ev_shiftKey e \<and> shiftKey ks then ks\<lparr>lastKeyReleased := Some Shift\<rparr>
             else ks\<lparr>lastKeyReleased := None\<rparr>);
          ks2 = ks1\<lparr>altKey := ev_altKey e, ctrlKey := ev_ctrlKey e, shiftKey := ev_shiftKey e\<rparr>
      in (ks2, if lastKeyReleased ks2 \<noteq> None then Some ks2 else None))"

text \<open>
  The blur subscription assigns \<^verbatim>\<open>shiftKey\<close> twice and \<^verbatim>\<open>ctrlKey\<close> not at all; the
  model keeps both assignments as the source has them.
\<close>

definition blur :: "IModifierKeyStatus \<Rightarrow> IModifierKeyStatus \<times> IModifierKeyStatus option" where
  "blur ks =
     (let ks1 = ks\<lparr>lastKeyPressed := None\<rparr>;
          ks2 = ks1\<lparr>lastKeyReleased := None\<rparr>;
          ks3 = ks2\<lparr>altKey := False\<rparr>;
          ks4 = ks3\<lparr>shiftKey := False\<rparr>;
          ks5 = ks4\<lparr>shiftKey := False\<rparr>
      in (ks5, Some ks5))"

subsection \<open>Services the part reads\<close>

datatype workspace =
    Path string
  | WorkspaceIdentifier (workspace_id: string) (configPath: string)

type_synonym MenuId = string

datatype MenuItem =
    MenuItemAction (action_id: string) (label: string) (checked: bool) (enabled: bool)
  | SubmenuItemAction (action_id: string) (label: string) (checked: bool) (enabled: bool)
      (submenu: MenuId)

text \<open>
  What the part is given by its collaborators: the configuration store, the platform,
  the two label functions, and the menu service together with \<^verbatim>\<open>IMenu.getActions\<close>
  (\<open>getActions svc m\<close> are the groups of the menu created for the id \<open>m\<close>, each a group
  name and its actions).
\<close>

record services =
  getValue :: "string \<Rightarrow> js_value"
  isMacintosh :: bool
  getPathLabel :: "string \<Rightarrow> string"
  getWorkspaceLabel :: "workspace \<Rightarrow> string"
  getActions :: "MenuId \<Rightarrow> (string \<times> MenuItem list) list"

definition currentEnableMenuBarMnemonics :: "services \<Rightarrow> bool" where
  "currentEnableMenuBarMnemonics svc =
     (case getValue svc ''window.enableMenuBarMnemonics'' of
        JBoolean b \<Rightarrow> b
      | _ \<Rightarrow> True)"

definition currentMultiCursorSetting :: "services \<Rightarrow> js_value" where
  "currentMultiCursorSetting svc = getValue svc ''editor.multiCursorModifier''"

definition currentAutoSaveSetting :: "services \<Rightarrow> js_value" where
  "currentAutoSaveSetting svc = getValue svc ''files.autoSave''"

definition currentSidebarPosition :: "services \<Rightarrow> js_value" where
  "currentSidebarPosition svc = getValue svc ''workbench.sideBar.location''"

definition currentStatusBarVisibility :: "services \<Rightarrow> bool" where
  "currentStatusBarVisibility svc =
     (case getValue svc ''workbench.statusBar.visible'' of
        JBoolean b \<Rightarrow> b
      | _ \<Rightarrow> True)"

definition currentActivityBarVisibility :: "services \<Rightarrow> bool" where
  "currentActivityBarVisibility svc =
     (case getValue svc ''workbench.activityBar.visible'' of
        JBoolean b \<Rightarrow> b
      | _ \<Rightarrow> True)"

definition currentMenubarVisibility :: "services \<Rightarrow> js_value" where
  "currentMenubarVisibility svc = getValue svc ''window.menuBarVisibility''"

subsection \<open>The state of the part\<close>

datatype MenubarState = HIDDEN | VISIBLE | FOCUSED | OPEN

text \<open>The numeric value of the enum member, which the comparisons of the source use.\<close>

fun state_num :: "MenubarState \<Rightarrow> nat" where
  "state_num HIDDEN = 0"
| "state_num VISIBLE = 1"
| "state_num FOCUSED = 2"
| "state_num OPEN = 3"

text \<open>
  An entry of an action list: an action of the registry (id, label, checked, enabled), a
  \<^verbatim>\<open>Separator\<close>, a \<^verbatim>\<open>SubmenuAction\<close> with its label and entries, or an action made by
  \<^verbatim>\<open>createOpenRecentMenuAction\<close> (command id, label, the path its \<^verbatim>\<open>run\<close> opens and the
  \<^verbatim>\<open>forceOpenWorkspaceAsFile\<close> it passes).
\<close>

datatype IAction =
    Action string string bool bool
  | Separator
  | SubmenuAction string "IAction list"
  | OpenRecentAction string string string bool

text \<open>
  A \<^verbatim>\<open>CustomMenu\<close>; its button and title elements are named by the position of the menu
  in \<^verbatim>\<open>customMenus\<close>.
\<close>

record CustomMenu =
  title :: string
  actions :: "IAction list option"

text \<open>
  \<^verbatim>\<open>focusedMenu\<close>: the holder and the widget of the open dropdown are named by the index
  of the button \<^verbatim>\<open>showCustomMenu\<close> made them for.
\<close>

record FocusedMenu =
  index :: int
  holder :: "int option"
  widget :: "int option"

record IRecentlyOpened =
  workspaces :: "workspace list"
  files :: "string list"

text \<open>
  \<^verbatim>\<open>getMenubarItemsDimensions\<close> measures the buttons in the DOM; the model keeps only
  whether the dimension is the measured one or \<^verbatim>\<open>new Dimension(0, 0)\<close>.
\<close>

datatype Dimension = ZeroDimension | ItemsDimension

text \<open>What the part does to its surroundings, in the order of the calls.\<close>

datatype effect =
    OnVisibilityChange_fire Dimension
  | Container_style_visibility "string option"
  | MenuUpdater_schedule
  | Button_domFocus int
  | Button_domBlur int
  | FocusToReturn_domFocus nat
  | Button_removeClass_open int
  | Holder_dispose int
  | Widget_dispose int
  | Holder_create int
  | Button_addClass_open int
  | Widget_create int "IAction list option"
  | Widget_focus int
  | Title_text_decoration nat bool

text \<open>
  The mutable fields of \<^verbatim>\<open>MenubarPart\<close>, after \<^verbatim>\<open>createContentArea\<close> has set the
  container.  \<open>customMenus\<close> is \<open>None\<close> until the first \<^verbatim>\<open>setupCustomMenubar\<close>;
  \<open>focusedMenu\<close> and \<open>focusToReturn\<close> are \<open>None\<close> for \<^verbatim>\<open>null\<close> and
  \<^verbatim>\<open>undefined\<close>.  \<open>modifierKeyStatus\<close> holds the status last handed to
  \<^verbatim>\<open>onModifierKeyToggled\<close> (in the source a reference to the tracker's object).
\<close>

record MenubarPart =
  focusState :: MenubarState
  focusedMenu :: "FocusedMenu option"
  customMenus :: "CustomMenu list option"
  focusToReturn :: "nat option"
  updatePending :: bool
  modifierKeyStatus :: "IModifierKeyStatus option"
  recentlyOpened :: "IRecentlyOpened option"
  effects :: "effect list"

definition isVisible :: "MenubarPart \<Rightarrow> bool" where
  "isVisible s = (state_num (focusState s) \<ge> state_num VISIBLE)"

definition isFocused :: "MenubarPart \<Rightarrow> bool" where
  "isFocused s = (state_num (focusState s) \<ge> state_num FOCUSED)"

definition isOpen :: "MenubarPart \<Rightarrow> bool" where
  "isOpen s = (state_num (focusState s) \<ge> state_num OPEN)"

definition emit :: "effect list \<Rightarrow> MenubarPart \<Rightarrow> MenubarPart" where
  "emit es s = s\<lparr>effects := effects s @ es\<rparr>"

text \<open>
  \<^verbatim>\<open>this.customMenus[i]\<close> followed by a property read: a \<^verbatim>\<open>TypeError\<close> when
  \<^verbatim>\<open>customMenus\<close> is undefined or has no element at \<open>i\<close>.
\<close>

definition customMenu_at :: "MenubarPart \<Rightarrow> int \<Rightarrow> CustomMenu option" where
  "customMenu_at s i =
     (case customMenus s of
        None \<Rightarrow> None
      | Some ms \<Rightarrow> if 0 \<le> i \<and> i < int (length ms) then Some (ms ! nat i) else None)"

definition getMenubarItemsDimensions :: "MenubarPart \<Rightarrow> Dimension option" where
  "getMenubarItemsDimensions s =
     (case customMenus s of
        None \<Rightarrow> Some ZeroDimension
      | Some ms \<Rightarrow> (case customMenu_at s 0 of None \<Rightarrow> None | Some m \<Rightarrow> Some ItemsDimension))"

definition hideMenubar :: "MenubarPart \<Rightarrow> MenubarPart" where
  "hideMenubar s =
     emit [OnVisibilityChange_fire ZeroDimension, Container_style_visibility (Some ''hidden'')] s"

definition showMenubar :: "MenubarPart \<Rightarrow> MenubarPart option" where
  "showMenubar s =
     (case getMenubarItemsDimensions s of
        None \<Rightarrow> None
      | Some d \<Rightarrow> Some (emit [OnVisibilityChange_fire d, Container_style_visibility None] s))"

definition cleanupCustomMenu :: "MenubarPart \<Rightarrow> MenubarPart" where
  "cleanupCustomMenu s =
     (case focusedMenu s of
        None \<Rightarrow> s
      | Some fm \<Rightarrow>
          (let s1 = (case holder fm of
                       None \<Rightarrow> s
                     | Some h \<Rightarrow> emit [Button_removeClass_open h, Holder_dispose h] s);
               s2 = (case widget fm of
                       None \<Rightarrow> s1
                     | Some w \<Rightarrow> emit [Widget_dispose w] s1)
           in s2\<lparr>focusedMenu := Some \<lparr>index = index fm, holder = None, widget = None\<rparr>\<rparr>))"

definition showCustomMenu :: "int \<Rightarrow> MenubarPart \<Rightarrow> MenubarPart option" where
  "showCustomMenu menuIndex s =
     (case customMenu_at s menuIndex of
        None \<Rightarrow> None
      | Some customMenu \<Rightarrow>
          Some ((emit [Holder_create menuIndex, Button_addClass_open menuIndex,
                       Widget_create menuIndex (actions customMenu), Widget_focus menuIndex] s)
                \<lparr>focusedMenu :=
                   Some \<lparr>index = menuIndex, holder = Some menuIndex, widget = Some menuIndex\<rparr>\<rparr>))"

text \<open>The tail the HIDDEN and VISIBLE cases share: hand the focus back.\<close>

definition return_focus :: "MenubarPart \<Rightarrow> MenubarPart" where
  "return_focus s =
     (case focusToReturn s of
        None \<Rightarrow> s
      | Some el \<Rightarrow> (emit [FocusToReturn_domFocus el] s)\<lparr>focusToReturn := None\<rparr>)"

text \<open>The \<^verbatim>\<open>switch\<close> of the setter: the entry actions of the target state.\<close>

fun entry_actions :: "MenubarState \<Rightarrow> MenubarPart \<Rightarrow> MenubarPart option" where
  "entry_actions HIDDEN s =
     (let s1 = (if isVisible s then hideMenubar s else s);
          s2 = (if isOpen s1 then cleanupCustomMenu s1 else s1)
      in if isFocused s2 then Some (return_focus (s2\<lparr>focusedMenu := None\<rparr>)) else Some s2)"
| "entry_actions VISIBLE s =
     do {
       s1 \<leftarrow> (if \<not> isVisible s then showMenubar s else Some s);
       let s2 = (if isOpen s1 then cleanupCustomMenu s1 else s1);
       if isFocused s2 then
         do {
           s3 \<leftarrow> (case focusedMenu s2 of
                   None \<Rightarrow> Some s2
                 | Some fm \<Rightarrow>
                     (case customMenu_at s2 (index fm) of
                        None \<Rightarrow> None
                      | Some m \<Rightarrow> Some (emit [Button_domBlur (index fm)] s2)));
           Some (return_focus (s3\<lparr>focusedMenu := None\<rparr>))
         }
       else Some s2
     }"
| "entry_actions FOCUSED s =
     do {
       s1 \<leftarrow> (if \<not> isVisible s then showMenubar s else Some s);
       let s2 = (if isOpen s1 then cleanupCustomMenu s1 else s1);
       case focusedMenu s2 of
         None \<Rightarrow> Some s2
       | Some fm \<Rightarrow>
           (case customMenu_at s2 (index fm) of
              None \<Rightarrow> None
            | Some m \<Rightarrow> Some (emit [Button_domFocus (index fm)] s2))
     }"
| "entry_actions OPEN s =
     do {
       s1 \<leftarrow> (if \<not> isVisible s then showMenubar s else Some s);
       case focusedMenu s1 of
         None \<Rightarrow> Some s1
       | Some fm \<Rightarrow> showCustomMenu (index fm) s1
     }"

text \<open>The setter of \<^verbatim>\<open>focusState\<close>.\<close>

definition set_focusState :: "MenubarState \<Rightarrow> MenubarPart \<Rightarrow> MenubarPart option" where
  "set_focusState v s =
     (let s1 = (if state_num (focusState s) \<ge> state_num FOCUSED \<and> state_num v < state_num FOCUSED
                then (if updatePending s
                      then (emit [MenuUpdater_schedule] s)\<lparr>updatePending := False\<rparr>
                      else s)
                else s)
      in if v = focusState s1 then Some s1
         else map_option (\<lambda>s2. s2\<lparr>focusState := v\<rparr>) (entry_actions v s1))"

definition setUnfocusedState :: "services \<Rightarrow> MenubarPart \<Rightarrow> MenubarPart option" where
  "setUnfocusedState svc s =
     set_focusState (if currentMenubarVisibility svc = JString ''toggle'' then HIDDEN else VISIBLE) s"

definition onModifierKeyToggled :: "services \<Rightarrow> IModifierKeyStatus \<Rightarrow> MenubarPart \<Rightarrow> MenubarPart option" where
  "onModifierKeyToggled svc st s0 =
     (let s = s0\<lparr>modifierKeyStatus := Some st\<rparr>;
          altKeyAlone = (lastKeyPressed st = Some Alt \<and> \<not> ctrlKey st \<and> \<not> shiftKey st);
          allModifiersReleased = (\<not> altKey st \<and> \<not> ctrlKey st \<and> \<not> shiftKey st)
      in do {
        s1 \<leftarrow> (if currentMenubarVisibility svc = JString ''toggle'' then
                 (if altKeyAlone then
                    (if \<not> isVisible s then set_focusState VISIBLE s else Some s)
                  else if \<not> allModifiersReleased \<and> \<not> isFocused s then set_focusState HIDDEN s
                  else Some s)
               else Some s);
        s2 \<leftarrow> (if allModifiersReleased \<and> lastKeyPressed st = Some Alt \<and> lastKeyReleased st = Some Alt then
                 (if \<not> isFocused s1 then
                    set_focusState FOCUSED
                      (s1\<lparr>focusedMenu := Some \<lparr>index = 0, holder = None, widget = None\<rparr>\<rparr>)
                  else if \<not> isOpen s1 then setUnfocusedState svc s1
                  else Some s1)
               else Some s1);
        Some (case customMenus s2 of
                None \<Rightarrow> s2
              | Some ms \<Rightarrow>
                  if currentEnableMenuBarMnemonics svc
                  then emit (map (\<lambda>i. Title_text_decoration i (altKey st)) [0..<length ms]) s2
                  else s2)
      })"

text \<open>
  The \<^verbatim>\<open>%\<close> of the source on integers: the sign of the dividend, and \<^verbatim>\<open>NaN\<close> (here
  \<open>None\<close>) for the divisor 0.
\<close>

definition js_remainder :: "int \<Rightarrow> int \<Rightarrow> int option" where
  "js_remainder a b = (if b = 0 then None else Some (sgn a * (\<bar>a\<bar> mod \<bar>b\<bar>)))"

text \<open>
  The part of \<^verbatim>\<open>focusPrevious\<close> and \<^verbatim>\<open>focusNext\<close> after the new index is computed.
  With \<^verbatim>\<open>NaN\<close> for the new index the comparison with the old index is false, and the
  read of \<^verbatim>\<open>customMenus[NaN]\<close> in either branch is a \<^verbatim>\<open>TypeError\<close>.
\<close>

definition move_focus :: "int option \<Rightarrow> FocusedMenu \<Rightarrow> MenubarPart \<Rightarrow> MenubarPart option" where
  "move_focus newFocusedIndex fm s =
     (case newFocusedIndex of
        None \<Rightarrow> if isOpen s \<or> isFocused s then None else Some s
      | Some j \<Rightarrow>
          if j = index fm then Some s
          else if isOpen s then showCustomMenu j (cleanupCustomMenu s)
          else if isFocused s then
            (case customMenu_at s j of
               None \<Rightarrow> None
             | Some m \<Rightarrow> Some (emit [Button_domFocus j] (s\<lparr>focusedMenu := Some (fm\<lparr>index := j\<rparr>)\<rparr>)))
          else Some s)"

definition focusPrevious :: "MenubarPart \<Rightarrow> MenubarPart option" where
  "focusPrevious s =
     (case focusedMenu s of
        None \<Rightarrow> Some s
      | Some fm \<Rightarrow>
          (case customMenus s of
             None \<Rightarrow> None
           | Some ms \<Rightarrow>
               move_focus (js_remainder (index fm - 1 + int (length ms)) (int (length ms))) fm s))"

definition focusNext :: "MenubarPart \<Rightarrow> MenubarPart option" where
  "focusNext s =
     (case focusedMenu s of
        None \<Rightarrow> Some s
      | Some fm \<Rightarrow>
          (case customMenus s of
             None \<Rightarrow> None
           | Some ms \<Rightarrow> move_focus (js_remainder (index fm + 1) (int (length ms))) fm s))"

subsection \<open>The tracker wired to the part\<close>

text \<open>
  \<^verbatim>\<open>registerListeners\<close> subscribes \<^verbatim>\<open>onModifierKeyToggled\<close> to the tracker when the
  custom menu bar is in use; a key event on the document then runs the tracker's
  subscription and, when it fires, the part's handler.  The result is \<open>None\<close> when the
  handler throws.
\<close>

record workbench =
  keyStatus :: IModifierKeyStatus
  part :: MenubarPart

definition deliver :: "services \<Rightarrow> IModifierKeyStatus \<times> IModifierKeyStatus option \<Rightarrow> workbench \<Rightarrow> workbench option" where
  "deliver svc r w =
     (case snd r of
        None \<Rightarrow> Some (w\<lparr>keyStatus := fst r\<rparr>)
      | Some st \<Rightarrow>
          map_option (\<lambda>p. \<lparr>keyStatus = fst r, part = p\<rparr>) (onModifierKeyToggled svc st (part w)))"

definition on_keydown :: "services \<Rightarrow> KeyboardEvent \<Rightarrow> workbench \<Rightarrow> workbench option" where
  "on_keydown svc e w = deliver svc (keydown e (keyStatus w)) w"

definition on_keyup :: "services \<Rightarrow> KeyboardEvent \<Rightarrow> workbench \<Rightarrow> workbench option" where
  "on_keyup svc e w = deliver svc (keyup e (keyStatus w)) w"

definition on_blur :: "services \<Rightarrow> workbench \<Rightarrow> workbench option" where
  "on_blur svc w = deliver svc (blur (keyStatus w)) w"

subsection \<open>Labels and checked state\<close>

definition setCheckedStatus :: "services \<Rightarrow> string \<Rightarrow> bool \<Rightarrow> bool" where
  "setCheckedStatus svc i c =
     (if i = ''workbench.action.toggleAutoSave'' then currentAutoSaveSetting svc \<noteq> JString ''off''
      else c)"

text \<open>
  \<^verbatim>\<open>label.replace(/&&(.)/g, '$1')\<close>: every \<^verbatim>\<open>&&\<close> followed by a character other than a
  line terminator is dropped, scanning from the left.
\<close>

fun strip_mnemonics :: "string \<Rightarrow> string" where
  "strip_mnemonics (a # b # c # rest) =
     (if a = CHR ''&'' \<and> b = CHR ''&'' \<and> c \<noteq> CHR 0x0A \<and> c \<noteq> CHR 0x0D
      then c # strip_mnemonics rest
      else a # strip_mnemonics (b # c # rest))"
| "strip_mnemonics s = s"

text \<open>\<^verbatim>\<open>nls.localize\<close> is taken at its default, the English message.\<close>

definition calculateActionLabel :: "services \<Rightarrow> string \<Rightarrow> string \<Rightarrow> string" where
  "calculateActionLabel svc i l =
     (let label1 =
        (if i = ''workbench.action.toggleMultiCursorModifier'' then
           (if currentMultiCursorSetting svc = JString ''ctrlCmd''
            then ''Switch to Alt+Click for Multi-Cursor''
            else if isMacintosh svc then ''Switch to Cmd+Click for Multi-Cursor''
            else ''Switch to Ctrl+Click for Multi-Cursor'')
         else if i = ''workbench.action.toggleSidebarPosition'' then
           (if currentSidebarPosition svc \<noteq> JString ''right''
            then ''&&Move Side Bar Right''
            else ''&&Move Side Bar Left'')
         else if i = ''workbench.action.toggleStatusbarVisibility'' then
           (if currentStatusBarVisibility svc then ''&&Hide Status Bar'' else ''&&Show Status Bar'')
         else if i = ''workbench.action.toggleActivityBarVisibility'' then
           (if currentActivityBarVisibility svc
            then ''Hide &&Activity Bar''
            else ''Show &&Activity Bar'')
         else l)
      in if currentEnableMenuBarMnemonics svc then label1 else strip_mnemonics label1)"

subsection \<open>Recently opened entries\<close>

definition MAX_MENU_RECENT_ENTRIES :: nat where
  "MAX_MENU_RECENT_ENTRIES = 5"

definition createOpenRecentMenuAction :: "services \<Rightarrow> workspace \<Rightarrow> string \<Rightarrow> bool \<Rightarrow> IAction" where
  "createOpenRecentMenuAction svc w commandId isFile =
     (case w of
        Path p \<Rightarrow> OpenRecentAction commandId (getPathLabel svc p) p isFile
      | WorkspaceIdentifier i cp \<Rightarrow> OpenRecentAction commandId (getWorkspaceLabel svc w) cp isFile)"

text \<open>
  The two \<^verbatim>\<open>for\<close> loops of \<^verbatim>\<open>getOpenRecentActions\<close>:
  \<^verbatim>\<open>for (let i = 0; i < MAX_MENU_RECENT_ENTRIES && i < xs.length; i++) result.push(...)\<close>,
  entered at \<open>i\<close>.
\<close>

function push_recent :: "services \<Rightarrow> string \<Rightarrow> workspace list \<Rightarrow> nat \<Rightarrow> IAction list \<Rightarrow> IAction list" where
  "push_recent svc commandId xs i result =
     (if i < MAX_MENU_RECENT_ENTRIES \<and> i < length xs
      then push_recent svc commandId xs (Suc i)
             (result @ [createOpenRecentMenuAction svc (xs ! i) commandId False])
      else result)"
  by pat_completeness auto
termination
  by (relation "measure (\<lambda>(svc, commandId, xs, i, result). length xs - i)") auto

definition getOpenRecentActions :: "services \<Rightarrow> MenubarPart \<Rightarrow> IAction list" where
  "getOpenRecentActions svc s =
     (case recentlyOpened s of
        None \<Rightarrow> []
      | Some ro \<Rightarrow>
          (let result = [];
               result1 = (if length (workspaces ro) > 0
                          then push_recent svc ''openRecentWorkspace'' (workspaces ro) 0 result @ [Separator]
                          else result);
               result2 = (if length (files ro) > 0
                          then push_recent svc ''openRecentFile'' (map Path (files ro)) 0 result1 @ [Separator]
                          else result1)
           in result2))"

definition insertActionsBefore :: "services \<Rightarrow> MenubarPart \<Rightarrow> MenuItem \<Rightarrow> IAction list \<Rightarrow> IAction list" where
  "insertActionsBefore svc s nextAction target =
     (if action_id nextAction = ''workbench.action.openRecent''
      then target @ getOpenRecentActions svc s
      else target)"

subsection \<open>Building the action lists\<close>

text \<open>
  \<^verbatim>\<open>updateActions\<close> of \<^verbatim>\<open>setupCustomMenubar\<close>.  The loops push onto \<open>target\<close>; \<open>sub\<close> is
  the call of \<^verbatim>\<open>updateActions\<close> for a sub-menu, on a fresh array.
\<close>

primrec actions_loop :: "(MenuId \<Rightarrow> IAction list option) \<Rightarrow> services \<Rightarrow> MenubarPart \<Rightarrow> MenuItem list \<Rightarrow> IAction list \<Rightarrow> IAction list option" where
  "actions_loop sub svc s [] target = Some target"
| "actions_loop sub svc s (action # rest) target =
     (let target1 = insertActionsBefore svc s action target
      in case action of
           SubmenuItemAction i l c e sm \<Rightarrow>
             (case sub sm of
                None \<Rightarrow> None
              | Some submenuActions \<Rightarrow>
                  actions_loop sub svc s rest (target1 @ [SubmenuAction l submenuActions]))
         | MenuItemAction i l c e \<Rightarrow>
             actions_loop sub svc s rest
               (target1 @ [Action i (calculateActionLabel svc i l) (setCheckedStatus svc i c) e]))"

primrec groups_loop :: "(MenuId \<Rightarrow> IAction list option) \<Rightarrow> services \<Rightarrow> MenubarPart \<Rightarrow> (string \<times> MenuItem list) list \<Rightarrow> IAction list \<Rightarrow> IAction list option" where
  "groups_loop sub svc s [] target = Some target"
| "groups_loop sub svc s (grp # rest) target =
     (case actions_loop sub svc s (snd grp) target of
        None \<Rightarrow> None
      | Some target1 \<Rightarrow> groups_loop sub svc s rest (target1 @ [Separator]))"

text \<open>
  The recursion through the menu service need not end (a menu may contain itself as a
  sub-menu), so \<open>updateActions\<close> takes the number of nested calls it may make and is
  \<open>None\<close> when they do not suffice.  \<^verbatim>\<open>target.pop()\<close> on the empty array does nothing.
\<close>

primrec updateActions :: "nat \<Rightarrow> services \<Rightarrow> MenubarPart \<Rightarrow> MenuId \<Rightarrow> IAction list option" where
  "updateActions 0 svc s menu = None"
| "updateActions (Suc fuel) svc s menu =
     map_option butlast (groups_loop (updateActions fuel svc s) svc s (getActions svc menu) [])"

text \<open>Every sub-menu chain below \<open>menu\<close> has at most \<open>d\<close> sub-menus.\<close>

primrec nested_within :: "nat \<Rightarrow> services \<Rightarrow> MenuId \<Rightarrow> bool" where
  "nested_within 0 svc menu =
     list_all (\<lambda>grp. list_all (\<lambda>a. case a of SubmenuItemAction i l c e sm \<Rightarrow> False
                                               | MenuItemAction i l c e \<Rightarrow> True) (snd grp))
       (getActions svc menu)"
| "nested_within (Suc d) svc menu =
     list_all (\<lambda>grp. list_all (\<lambda>a. case a of SubmenuItemAction i l c e sm \<Rightarrow> nested_within d svc sm
                                               | MenuItemAction i l c e \<Rightarrow> True) (snd grp))
       (getActions svc menu)"

text \<open>The items \<^verbatim>\<open>getMenubarMenus\<close> builds for one top level menu.\<close>

datatype IMenubarMenuItem =
    MenubarMenuItemAction string string bool bool
  | MenubarMenuItemSeparator

definition menubar_group_items :: "services \<Rightarrow> MenuItem list \<Rightarrow> IMenubarMenuItem list" where
  "menubar_group_items svc as =
     map (\<lambda>a. MenubarMenuItemAction (action_id a)
                 (calculateActionLabel svc (action_id a) (label a))
                 (setCheckedStatus svc (action_id a) (checked a))
                 (enabled a)) as"

primrec menubar_groups_loop :: "services \<Rightarrow> (string \<times> MenuItem list) list \<Rightarrow> IMenubarMenuItem list \<Rightarrow> IMenubarMenuItem list" where
  "menubar_groups_loop svc [] items = items"
| "menubar_groups_loop svc (grp # rest) items =
     menubar_groups_loop svc rest (items @ menubar_group_items svc (snd grp) @ [MenubarMenuItemSeparator])"

definition menubarMenu_items :: "services \<Rightarrow> MenuId \<Rightarrow> IMenubarMenuItem list" where
  "menubarMenu_items svc menu =
     (let items = menubar_groups_loop svc (getActions svc menu) []
      in if length items > 0 then butlast items else items)"

definition topLevelMenus :: "services \<Rightarrow> MenuId list" where
  "topLevelMenus svc =
     [''File'', ''Edit'', ''Selection'', ''View'', ''Go'', ''Terminal'', ''Debug'', ''Tasks'', ''Help'']
     @ (if isMacintosh svc then [''Window''] else [])"

definition getMenubarMenus :: "services \<Rightarrow> (MenuId \<times> IMenubarMenuItem list) list" where
  "getMenubarMenus svc = map (\<lambda>name. (name, menubarMenu_items svc name)) (topLevelMenus svc)"

subsection \<open>Separators in a list\<close>

fun is_separator :: "IAction \<Rightarrow> bool" where
  "is_separator Separator = True"
| "is_separator a = False"

fun is_menubar_separator :: "IMenubarMenuItem \<Rightarrow> bool" where
  "is_menubar_separator MenubarMenuItemSeparator = True"
| "is_menubar_separator a = False"

definition count_separators :: "('a \<Rightarrow> bool) \<Rightarrow> 'a list \<Rightarrow> nat" where
  "count_separators sep xs = length (filter sep xs)"

definition leading_separator :: "('a \<Rightarrow> bool) \<Rightarrow> 'a list \<Rightarrow> bool" where
  "leading_separator sep xs = (case xs of [] \<Rightarrow> False | x # rest \<Rightarrow> sep x)"

definition trailing_separator :: "('a \<Rightarrow> bool) \<Rightarrow> 'a list \<Rightarrow> bool" where
  "trailing_separator sep xs = (case rev xs of [] \<Rightarrow> False | x # rest \<Rightarrow> sep x)"

fun adjacent_separators :: "('a \<Rightarrow> bool) \<Rightarrow> 'a list \<Rightarrow> bool" where
  "adjacent_separators sep (x # y # rest) = ((sep x \<and> sep y) \<or> adjacent_separators sep (y # rest))"
| "adjacent_separators sep xs = False"

text \<open>The number of actions of the groups before which the open-recent entries go.\<close>

definition open_recent_slots :: "(string \<times> MenuItem list) list \<Rightarrow> nat" where
  "open_recent_slots groups =
     length (filter (\<lambda>a. action_id a = ''workbench.action.openRecent'') (concat (map snd groups)))"

text \<open>
  A run of entries that can stand between two separators: not empty, no separator at
  either end, no two separators next to each other.
\<close>

definition block :: "('a \<Rightarrow> bool) \<Rightarrow> 'a list \<Rightarrow> bool" where
  "block sep xs = (xs \<noteq> [] \<and> \<not> sep (hd xs) \<and> \<not> sep (last xs) \<and> \<not> adjacent_separators sep xs)"

subsection \<open>Notions the statements use\<close>

text \<open>The modifier \<open>k\<close> goes from not pressed to pressed with the key-down event \<open>e\<close>.\<close>

fun newly_pressed :: "ModifierKey \<Rightarrow> KeyboardEvent \<Rightarrow> IModifierKeyStatus \<Rightarrow> bool" where
  "newly_pressed Alt e ks = (ev_altKey e \<and> \<not> altKey ks)"
| "newly_pressed Ctrl e ks = (ev_ctrlKey e \<and> \<not> ctrlKey ks)"
| "newly_pressed Shift e ks = (ev_shiftKey e \<and> \<not> shiftKey ks)"

text \<open>
  The effects of the last block of \<^verbatim>\<open>onModifierKeyToggled\<close>: the underline of every
  title, when mnemonics are enabled and the buttons exist.
\<close>

definition title_decorations :: "services \<Rightarrow> IModifierKeyStatus \<Rightarrow> MenubarPart \<Rightarrow> effect list" where
  "title_decorations svc st s =
     (case customMenus s of
        None \<Rightarrow> []
      | Some ms \<Rightarrow>
          if currentEnableMenuBarMnemonics svc
          then map (\<lambda>i. Title_text_decoration i (altKey st)) [0..<length ms]
          else [])"

fun is_title_decoration :: "effect \<Rightarrow> bool" where
  "is_title_decoration (Title_text_decoration i u) = True"
| "is_title_decoration e = False"

subsection \<open>Concrete inputs\<close>

text \<open>
  A configuration in toggle mode with every other setting unset, and a registry with a
  File menu of two groups, the second holding the open-recent action and a sub-menu.
\<close>

definition example_services :: services where
  "example_services =
     \<lparr>getValue = (\<lambda>k. if k = ''window.menuBarVisibility'' then JString ''toggle'' else JUndefined),
      isMacintosh = False,
      getPathLabel = (\<lambda>p. p),
      getWorkspaceLabel = (\<lambda>w. ''workspace''),
      getActions = (\<lambda>m.
        if m = ''File'' then
          [(''1_new'', [MenuItemAction ''workbench.action.files.newUntitledFile'' ''New File'' False True]),
           (''2_open'', [MenuItemAction ''workbench.action.openRecent'' ''More'' False True,
                         SubmenuItemAction '''' ''Preferences'' False True ''Preferences''])]
        else if m = ''Preferences'' then
          [(''1_settings'', [MenuItemAction ''workbench.action.openSettings'' ''Settings'' False True])]
        else if m = ''Edit'' then
          [(''1_do'', []),
           (''2_cutcopypaste'', [MenuItemAction ''editor.action.clipboardCutAction'' ''Cut'' False True])]
        else [])\<rparr>"

definition example_part :: MenubarPart where
  "example_part =
     \<lparr>focusState = HIDDEN,
      focusedMenu = None,
      customMenus = Some [\<lparr>title = ''File'', actions = Some []\<rparr>,
                          \<lparr>title = ''Edit'', actions = Some []\<rparr>,
                          \<lparr>title = ''Help'', actions = Some []\<rparr>],
      focusToReturn = None,
      updatePending = False,
      modifierKeyStatus = None,
      recentlyOpened =
        Some \<lparr>workspaces = [Path ''/w1'', WorkspaceIdentifier ''id2'' ''/w2.code-workspace'',
                            Path ''/w3'', Path ''/w4'', Path ''/w5'', Path ''/w6''],
              files = [''/a.txt'']\<rparr>,
      effects = []\<rparr>"

text \<open>The statuses of the tracker for Alt held alone and for Alt released after it.\<close>

definition alt_pressed :: IModifierKeyStatus where
  "alt_pressed =
     \<lparr>altKey = True, shiftKey = False, ctrlKey = False,
      lastKeyPressed = Some Alt, lastKeyReleased = None\<rparr>"

definition alt_released :: IModifierKeyStatus where
  "alt_released =
     \<lparr>altKey = False, shiftKey = False, ctrlKey = False,
      lastKeyPressed = Some Alt, lastKeyReleased = Some Alt\<rparr>"

section \<open>Properties of the modifier key tracker\<close>

lemma blur_status:
  "fst (blur ks) = ks\<lparr>lastKeyPressed := None, lastKeyReleased := None, altKey := False, shiftKey := False\<rparr>"
  by (simp add: blur_def Let_def)

lemma blur_fires: "snd (blur ks) = Some (fst (blur ks))"
  by (simp add: blur_def Let_def)

lemma blur_ctrlKey: "ctrlKey (fst (blur ks)) = ctrlKey ks"
  by (simp add: blur_status)

text \<open>
  C7.  After a window blur the tracker should hold all three modifier flags false, both
  last-key fields cleared, and it fires always.  The source clears \<^verbatim>\<open>shiftKey\<close> twice
  and leaves \<^verbatim>\<open>ctrlKey\<close> as it was: with Ctrl held when the window loses focus, the
  status after the blur (and the status fired) still has \<open>ctrlKey\<close> set.
\<close>

theorem blur_leaves_ctrlKey_set:
  "blur (fst (keydown \<lparr>ev_altKey = False, ev_ctrlKey = True, ev_shiftKey = False\<rparr> initial_keyStatus)) =
     (\<lparr>altKey = False, shiftKey = False, ctrlKey = True, lastKeyPressed = None, lastKeyReleased = None\<rparr>,
      Some \<lparr>altKey = False, shiftKey = False, ctrlKey = True, lastKeyPressed = None, lastKeyReleased = None\<rparr>)"
  by (simp add: blur_def keydown_def initial_keyStatus_def Let_def)

text \<open>
  C8, as the claim has it, fails: a key-down that newly presses a modifier does not clear
  \<open>lastKeyReleased\<close>.  After an Alt tap (down, then up) on a fresh tracker, a second
  Alt key-down leaves \<open>lastKeyReleased\<close> at Alt.
\<close>

theorem keydown_keeps_lastKeyReleased:
  "newly_pressed Alt \<lparr>ev_altKey = True, ev_ctrlKey = False, ev_shiftKey = False\<rparr>
     (fst (keyup \<lparr>ev_altKey = False, ev_ctrlKey = False, ev_shiftKey = False\<rparr>
        (fst (keydown \<lparr>ev_altKey = True, ev_ctrlKey = False, ev_shiftKey = False\<rparr> initial_keyStatus))))
   \<and> lastKeyReleased
        (fst (keydown \<lparr>ev_altKey = True, ev_ctrlKey = False, ev_shiftKey = False\<rparr>
           (fst (keyup \<lparr>ev_altKey = False, ev_ctrlKey = False, ev_shiftKey = False\<rparr>
              (fst (keydown \<lparr>ev_altKey = True, ev_ctrlKey = False, ev_shiftKey = False\<rparr> initial_keyStatus))))))
       = Some Alt"
  by (simp add: keydown_def keyup_def initial_keyStatus_def Let_def)

text \<open>
  C8, amended.  On a key-down in which some tracked modifier goes from not pressed to
  pressed, the tracker records such a modifier as \<open>lastKeyPressed\<close>, namely the first
  newly pressed one among Alt, Ctrl, Shift in this order (and none when no modifier is
  newly pressed), and leaves \<open>lastKeyReleased\<close> as it was; the three flags follow the
  event; and a status is fired exactly when some modifier is newly pressed, which is
  exactly when \<open>lastKeyPressed\<close> was set in the call; what is fired is the new status.
\<close>

theorem keydown_records_newly_pressed:
  "lastKeyPressed (fst (keydown e ks)) =
     (if newly_pressed Alt e ks then Some Alt
      else if newly_pressed Ctrl e ks then Some Ctrl
      else if newly_pressed Shift e ks then Some Shift
      else None)
   \<and> (newly_pressed Alt e ks \<or> newly_pressed Ctrl e ks \<or> newly_pressed Shift e ks \<longrightarrow>
      (\<exists>k. lastKeyPressed (fst (keydown e ks)) = Some k \<and> newly_pressed k e ks))
   \<and> lastKeyReleased (fst (keydown e ks)) = lastKeyReleased ks
   \<and> altKey (fst (keydown e ks)) = ev_altKey e
   \<and> ctrlKey (fst (keydown e ks)) = ev_ctrlKey e
   \<and> shiftKey (fst (keydown e ks)) = ev_shiftKey e
   \<and> (snd (keydown e ks) \<noteq> None) =
       (newly_pressed Alt e ks \<or> newly_pressed Ctrl e ks \<or> newly_pressed Shift e ks)
   \<and> (snd (keydown e ks) \<noteq> None) = (lastKeyPressed (fst (keydown e ks)) \<noteq> None)
   \<and> (snd (keydown e ks) = None \<or> snd (keydown e ks) = Some (fst (keydown e ks)))"
  by (auto simp: keydown_def Let_def)

theorem keydown_records_newly_pressed_witness:
  "newly_pressed Ctrl \<lparr>ev_altKey = False, ev_ctrlKey = True, ev_shiftKey = False\<rparr> initial_keyStatus
   \<and> lastKeyPressed
        (fst (keydown \<lparr>ev_altKey = False, ev_ctrlKey = True, ev_shiftKey = False\<rparr> initial_keyStatus))
       = Some Ctrl
   \<and> (\<exists>k. lastKeyPressed
              (fst (keydown \<lparr>ev_altKey = False, ev_ctrlKey = True, ev_shiftKey = False\<rparr> initial_keyStatus))
            = Some k
          \<and> newly_pressed k \<lparr>ev_altKey = False, ev_ctrlKey = True, ev_shiftKey = False\<rparr> initial_keyStatus)
   \<and> lastKeyReleased
        (fst (keydown \<lparr>ev_altKey = False, ev_ctrlKey = True, ev_shiftKey = False\<rparr> initial_keyStatus))
       = lastKeyReleased initial_keyStatus
   \<and> snd (keydown \<lparr>ev_altKey = False, ev_ctrlKey = True, ev_shiftKey = False\<rparr> initial_keyStatus)
       = Some (fst (keydown \<lparr>ev_altKey = False, ev_ctrlKey = True, ev_shiftKey = False\<rparr> initial_keyStatus))
   \<and> newly_pressed Shift \<lparr>ev_altKey = True, ev_ctrlKey = True, ev_shiftKey = True\<rparr> initial_keyStatus
   \<and> lastKeyPressed
        (fst (keydown \<lparr>ev_altKey = True, ev_ctrlKey = True, ev_shiftKey = True\<rparr> initial_keyStatus))
       = Some Alt"
proof -
  have pressed:
    "newly_pressed Ctrl \<lparr>ev_altKey = False, ev_ctrlKey = True, ev_shiftKey = False\<rparr> initial_keyStatus"
    "\<not> newly_pressed Alt \<lparr>ev_altKey = False, ev_ctrlKey = True, ev_shiftKey = False\<rparr> initial_keyStatus"
    by (simp_all add: initial_keyStatus_def)
  have all_pressed:
    "newly_pressed Alt \<lparr>ev_altKey = True, ev_ctrlKey = True, ev_shiftKey = True\<rparr> initial_keyStatus"
    "newly_pressed Shift \<lparr>ev_altKey = True, ev_ctrlKey = True, ev_shiftKey = True\<rparr> initial_keyStatus"
    by (simp_all add: initial_keyStatus_def)
  show ?thesis
    using pressed all_pressed
      keydown_records_newly_pressed
        [of "\<lparr>ev_altKey = False, ev_ctrlKey = True, ev_shiftKey = False\<rparr>" initial_keyStatus]
      keydown_records_newly_pressed
        [of "\<lparr>ev_altKey = True, ev_ctrlKey = True, ev_shiftKey = True\<rparr>" initial_keyStatus]
    by auto
qed

section \<open>Properties of the configuration getters\<close>

text \<open>
  C9.  When the stored value of \<^verbatim>\<open>window.enableMenuBarMnemonics\<close>,
  \<^verbatim>\<open>workbench.statusBar.visible\<close> or \<^verbatim>\<open>workbench.activityBar.visible\<close> is not a boolean,
  its getter returns true.  The getters are total: none of them raises.
\<close>

theorem boolean_getters_default_true:
  "(typeof (getValue svc ''window.enableMenuBarMnemonics'') \<noteq> ''boolean'' \<longrightarrow>
      currentEnableMenuBarMnemonics svc = True)
   \<and> (typeof (getValue svc ''workbench.statusBar.visible'') \<noteq> ''boolean'' \<longrightarrow>
      currentStatusBarVisibility svc = True)
   \<and> (typeof (getValue svc ''workbench.activityBar.visible'') \<noteq> ''boolean'' \<longrightarrow>
      currentActivityBarVisibility svc = True)"
proof (intro conjI impI)
  assume "typeof (getValue svc ''window.enableMenuBarMnemonics'') \<noteq> ''boolean''"
  then show "currentEnableMenuBarMnemonics svc = True"
    by (cases "getValue svc ''window.enableMenuBarMnemonics''")
       (simp_all add: currentEnableMenuBarMnemonics_def)
next
  assume "typeof (getValue svc ''workbench.statusBar.visible'') \<noteq> ''boolean''"
  then show "currentStatusBarVisibility svc = True"
    by (cases "getValue svc ''workbench.statusBar.visible''")
       (simp_all add: currentStatusBarVisibility_def)
next
  assume "typeof (getValue svc ''workbench.activityBar.visible'') \<noteq> ''boolean''"
  then show "currentActivityBarVisibility svc = True"
    by (cases "getValue svc ''workbench.activityBar.visible''")
       (simp_all add: currentActivityBarVisibility_def)
qed

theorem boolean_getters_default_true_witness:
  "typeof (getValue example_services ''window.enableMenuBarMnemonics'') \<noteq> ''boolean''
   \<and> typeof (getValue example_services ''workbench.statusBar.visible'') \<noteq> ''boolean''
   \<and> typeof (getValue example_services ''workbench.activityBar.visible'') \<noteq> ''boolean''
   \<and> currentEnableMenuBarMnemonics example_services = True
   \<and> currentStatusBarVisibility example_services = True
   \<and> currentActivityBarVisibility example_services = True"
proof -
  have a: "typeof (getValue example_services ''window.enableMenuBarMnemonics'') \<noteq> ''boolean''"
    by (simp add: example_services_def)
  have b: "typeof (getValue example_services ''workbench.statusBar.visible'') \<noteq> ''boolean''"
    by (simp add: example_services_def)
  have c: "typeof (getValue example_services ''workbench.activityBar.visible'') \<noteq> ''boolean''"
    by (simp add: example_services_def)
  show ?thesis
    using a b c boolean_getters_default_true [of example_services] by blast
qed

section \<open>Properties of the focus state machine\<close>

text \<open>
  C1.  Setting the focus state to the state the part is already in changes nothing: the
  part after the call is the part before it, so no field moves (\<open>focusedMenu\<close> is
  unchanged) and the list of effects gains nothing (the bar is neither shown nor hidden,
  no dropdown is made or disposed, \<^verbatim>\<open>_onVisibilityChange\<close> does not fire).
\<close>

theorem set_focusState_same_state:
  "set_focusState (focusState s) s = Some s"
  by (auto simp: set_focusState_def Let_def)

text \<open>
  C10.  With a menu focused, \<^verbatim>\<open>cleanupCustomMenu\<close> keeps the focused index and drops
  the holder and the widget; it writes neither the focus state nor any other field but
  the effects.
\<close>

theorem cleanupCustomMenu_keeps_index:
  assumes "focusedMenu s = Some fm"
  shows "focusedMenu (cleanupCustomMenu s) = Some \<lparr>index = index fm, holder = None, widget = None\<rparr>
         \<and> focusState (cleanupCustomMenu s) = focusState s
         \<and> customMenus (cleanupCustomMenu s) = customMenus s
         \<and> focusToReturn (cleanupCustomMenu s) = focusToReturn s
         \<and> updatePending (cleanupCustomMenu s) = updatePending s
         \<and> modifierKeyStatus (cleanupCustomMenu s) = modifierKeyStatus s
         \<and> recentlyOpened (cleanupCustomMenu s) = recentlyOpened s"
  using assms
  by (simp add: cleanupCustomMenu_def emit_def Let_def split: option.splits)

theorem cleanupCustomMenu_keeps_index_witness:
  "focusedMenu (example_part\<lparr>focusState := OPEN,
       focusedMenu := Some \<lparr>index = 1, holder = Some 1, widget = Some 1\<rparr>\<rparr>)
     = Some \<lparr>index = 1, holder = Some 1, widget = Some 1\<rparr>
   \<and> focusedMenu (cleanupCustomMenu (example_part\<lparr>focusState := OPEN,
       focusedMenu := Some \<lparr>index = 1, holder = Some 1, widget = Some 1\<rparr>\<rparr>))
     = Some \<lparr>index = 1, holder = None, widget = None\<rparr>
   \<and> focusState (cleanupCustomMenu (example_part\<lparr>focusState := OPEN,
       focusedMenu := Some \<lparr>index = 1, holder = Some 1, widget = Some 1\<rparr>\<rparr>)) = OPEN"
proof -
  let ?s = "example_part\<lparr>focusState := OPEN,
       focusedMenu := Some \<lparr>index = 1, holder = Some 1, widget = Some 1\<rparr>\<rparr>"
  have h: "focusedMenu ?s = Some \<lparr>index = 1, holder = Some 1, widget = Some 1\<rparr>"
    by simp
  show ?thesis
    using h cleanupCustomMenu_keeps_index [OF h] by simp
qed

subsection \<open>Transitions the modifier keys drive\<close>

lemma set_HIDDEN_idle: "focusState s = HIDDEN \<Longrightarrow> set_focusState HIDDEN s = Some s"
  by (simp add: set_focusState_def)

lemma set_VISIBLE_from_HIDDEN:
  assumes "focusState s = HIDDEN" "customMenus s = Some ms" "ms \<noteq> []"
  shows "set_focusState VISIBLE s =
           Some (s\<lparr>focusState := VISIBLE,
                   effects := effects s @ [OnVisibilityChange_fire ItemsDimension,
                                           Container_style_visibility None]\<rparr>)"
  using assms
  by (simp add: set_focusState_def isVisible_def isOpen_def isFocused_def showMenubar_def
      getMenubarItemsDimensions_def customMenu_at_def emit_def)

lemma set_FOCUSED_from_VISIBLE:
  assumes "focusState s = VISIBLE" "customMenus s = Some ms" "ms \<noteq> []"
    "focusedMenu s = Some \<lparr>index = 0, holder = None, widget = None\<rparr>"
  shows "set_focusState FOCUSED s =
           Some (s\<lparr>focusState := FOCUSED, effects := effects s @ [Button_domFocus 0]\<rparr>)"
  using assms
  by (simp add: set_focusState_def isVisible_def isOpen_def isFocused_def customMenu_at_def emit_def)

lemma alt_pressed_shows_bar:
  assumes "focusState s = HIDDEN" "currentMenubarVisibility svc = JString ''toggle''"
    "customMenus s = Some ms" "ms \<noteq> []"
    "lastKeyPressed st = Some Alt" "altKey st" "\<not> ctrlKey st" "\<not> shiftKey st"
  shows "onModifierKeyToggled svc st s =
           Some (s\<lparr>focusState := VISIBLE, modifierKeyStatus := Some st,
                   effects := effects s @ [OnVisibilityChange_fire ItemsDimension,
                                           Container_style_visibility None]
                       @ title_decorations svc st s\<rparr>)"
proof -
  let ?s = "s\<lparr>modifierKeyStatus := Some st\<rparr>"
  have "set_focusState VISIBLE ?s =
          Some (?s\<lparr>focusState := VISIBLE,
                   effects := effects ?s @ [OnVisibilityChange_fire ItemsDimension,
                                            Container_style_visibility None]\<rparr>)"
    using assms by (intro set_VISIBLE_from_HIDDEN [where ms = ms]) simp_all
  then show ?thesis
    using assms
    by (simp add: onModifierKeyToggled_def Let_def isVisible_def title_decorations_def emit_def)
qed

lemma alt_released_focuses_first:
  assumes "focusState s = VISIBLE" "currentMenubarVisibility svc = JString ''toggle''"
    "customMenus s = Some ms" "ms \<noteq> []"
    "lastKeyPressed st = Some Alt" "lastKeyReleased st = Some Alt"
    "\<not> altKey st" "\<not> ctrlKey st" "\<not> shiftKey st"
  shows "onModifierKeyToggled svc st s =
           Some (s\<lparr>focusState := FOCUSED, modifierKeyStatus := Some st,
                   focusedMenu := Some \<lparr>index = 0, holder = None, widget = None\<rparr>,
                   effects := effects s @ [Button_domFocus 0] @ title_decorations svc st s\<rparr>)"
proof -
  let ?s = "s\<lparr>modifierKeyStatus := Some st,
              focusedMenu := Some \<lparr>index = 0, holder = None, widget = None\<rparr>\<rparr>"
  have "set_focusState FOCUSED ?s =
          Some (?s\<lparr>focusState := FOCUSED, effects := effects ?s @ [Button_domFocus 0]\<rparr>)"
    using assms by (intro set_FOCUSED_from_VISIBLE [where ms = ms]) simp_all
  then show ?thesis
    using assms
    by (simp add: onModifierKeyToggled_def Let_def isVisible_def isFocused_def
        title_decorations_def emit_def)
qed

lemma hidden_without_alt:
  assumes "focusState s = HIDDEN" "currentMenubarVisibility svc = JString ''toggle''"
    "lastKeyPressed st \<noteq> Some Alt"
  shows "onModifierKeyToggled svc st s =
           Some (s\<lparr>modifierKeyStatus := Some st, effects := effects s @ title_decorations svc st s\<rparr>)"
proof -
  let ?s = "s\<lparr>modifierKeyStatus := Some st\<rparr>"
  have "set_focusState HIDDEN ?s = Some ?s"
    using assms by (intro set_HIDDEN_idle) simp
  then show ?thesis
    using assms
    by (simp add: onModifierKeyToggled_def Let_def isVisible_def isFocused_def
        title_decorations_def emit_def split: option.splits)
qed

text \<open>
  Once the buttons have been built (\<^verbatim>\<open>customMenus\<close> holds at least one), with the part
  HIDDEN and the visibility mode toggle: the status for Alt pressed alone (Alt down and
  last pressed, Ctrl and Shift up) moves the state to VISIBLE; the following status for
  Alt released (all three up, Alt last pressed and last released) moves it to FOCUSED,
  with the focused index 0.  Both calls of the handler return.
\<close>

lemma alt_tap_from_hidden:
  assumes "focusState s = HIDDEN"
    and "currentMenubarVisibility svc = JString ''toggle''"
    and "customMenus s = Some ms" and "ms \<noteq> []"
    and "lastKeyPressed st1 = Some Alt" and "altKey st1" and "\<not> ctrlKey st1" and "\<not> shiftKey st1"
    and "lastKeyPressed st2 = Some Alt" and "lastKeyReleased st2 = Some Alt"
    and "\<not> altKey st2" and "\<not> ctrlKey st2" and "\<not> shiftKey st2"
  shows "\<exists>s1 s2. onModifierKeyToggled svc st1 s = Some s1 \<and> focusState s1 = VISIBLE
           \<and> onModifierKeyToggled svc st2 s1 = Some s2 \<and> focusState s2 = FOCUSED
           \<and> map_option index (focusedMenu s2) = Some 0"
proof -
  obtain s1 where s1: "onModifierKeyToggled svc st1 s = Some s1" "focusState s1 = VISIBLE"
      "customMenus s1 = Some ms"
    using alt_pressed_shows_bar [of s svc ms st1] assms by simp
  obtain s2 where s2: "onModifierKeyToggled svc st2 s1 = Some s2" "focusState s2 = FOCUSED"
      "focusedMenu s2 = Some \<lparr>index = 0, holder = None, widget = None\<rparr>"
    using alt_released_focuses_first [of s1 svc ms st2] s1 assms by simp
  show ?thesis
    using s1 s2 by simp
qed

lemma alt_tap_from_hidden_example:
  "focusState example_part = HIDDEN
   \<and> currentMenubarVisibility example_services = JString ''toggle''
   \<and> (\<exists>s1 s2. onModifierKeyToggled example_services alt_pressed example_part = Some s1
         \<and> focusState s1 = VISIBLE
         \<and> onModifierKeyToggled example_services alt_released s1 = Some s2
         \<and> focusState s2 = FOCUSED
         \<and> map_option index (focusedMenu s2) = Some 0)"
proof -
  have a: "focusState example_part = HIDDEN"
    by (simp add: example_part_def)
  have b: "currentMenubarVisibility example_services = JString ''toggle''"
    by (simp add: currentMenubarVisibility_def example_services_def)
  have c: "customMenus example_part =
      Some [\<lparr>title = ''File'', actions = Some []\<rparr>, \<lparr>title = ''Edit'', actions = Some []\<rparr>,
            \<lparr>title = ''Help'', actions = Some []\<rparr>]"
    by (simp add: example_part_def)
  show ?thesis
    using a b
      alt_tap_from_hidden [OF a b c, of alt_pressed alt_released]
    by (simp add: alt_pressed_def alt_released_def)
qed

text \<open>
  The same tap through the tracker: from any tracker status with Alt up, the key-down of
  Alt alone and the key-up that releases it.
\<close>

lemma alt_tap_through_tracker:
  assumes "focusState (part w) = HIDDEN" "currentMenubarVisibility svc = JString ''toggle''"
    "customMenus (part w) = Some ms" "ms \<noteq> []" "\<not> altKey (keyStatus w)"
  shows "\<exists>w1 w2.
           on_keydown svc \<lparr>ev_altKey = True, ev_ctrlKey = False, ev_shiftKey = False\<rparr> w = Some w1
           \<and> focusState (part w1) = VISIBLE
           \<and> on_keyup svc \<lparr>ev_altKey = False, ev_ctrlKey = False, ev_shiftKey = False\<rparr> w1 = Some w2
           \<and> focusState (part w2) = FOCUSED
           \<and> map_option index (focusedMenu (part w2)) = Some 0"
proof -
  let ?down = "\<lparr>ev_altKey = True, ev_ctrlKey = False, ev_shiftKey = False\<rparr>"
  let ?up = "\<lparr>ev_altKey = False, ev_ctrlKey = False, ev_shiftKey = False\<rparr>"
  let ?st1 = "(keyStatus w)\<lparr>lastKeyPressed := Some Alt, altKey := True, ctrlKey := False, shiftKey := False\<rparr>"
  let ?st2 = "?st1\<lparr>lastKeyReleased := Some Alt, altKey := False, ctrlKey := False, shiftKey := False\<rparr>"
  have k1: "keydown ?down (keyStatus w) = (?st1, Some ?st1)"
    using assms(5) by (simp add: keydown_def Let_def)
  have k2: "keyup ?up ?st1 = (?st2, Some ?st2)"
    by (simp add: keyup_def Let_def)
  obtain s1 where s1: "onModifierKeyToggled svc ?st1 (part w) = Some s1" "focusState s1 = VISIBLE"
      "customMenus s1 = Some ms"
    using alt_pressed_shows_bar [of "part w" svc ms ?st1] assms by simp
  obtain s2 where s2: "onModifierKeyToggled svc ?st2 s1 = Some s2" "focusState s2 = FOCUSED"
      "focusedMenu s2 = Some \<lparr>index = 0, holder = None, widget = None\<rparr>"
    using alt_released_focuses_first [of s1 svc ms ?st2] s1 assms by simp
  have "on_keydown svc ?down w = Some \<lparr>keyStatus = ?st1, part = s1\<rparr>"
    using k1 s1(1) by (simp add: on_keydown_def deliver_def)
  moreover have "on_keyup svc ?up \<lparr>keyStatus = ?st1, part = s1\<rparr> = Some \<lparr>keyStatus = ?st2, part = s2\<rparr>"
    using k2 s2(1) by (simp add: on_keyup_def deliver_def)
  ultimately show ?thesis
    using s1(2) s2(2,3) by simp
qed

text \<open>
  Before the first \<^verbatim>\<open>setupCustomMenubar\<close> there is no button to focus: the handler sets
  \<open>focusedMenu\<close> and then throws on \<^verbatim>\<open>customMenus[0]\<close>, so the state is not committed.
\<close>

lemma alt_released_without_buttons:
  assumes "focusState s = VISIBLE" "customMenus s = None"
    "lastKeyPressed st = Some Alt" "lastKeyReleased st = Some Alt"
    "\<not> altKey st" "\<not> ctrlKey st" "\<not> shiftKey st"
  shows "onModifierKeyToggled svc st s = None"
  using assms
  by (simp add: onModifierKeyToggled_def Let_def set_focusState_def isVisible_def isFocused_def
      isOpen_def customMenu_at_def)

text \<open>
  C2.  From HIDDEN in toggle mode, the status for Alt pressed alone should move the state
  to VISIBLE and the following status for Alt released should move it to FOCUSED with the
  focused index 0.  The first step does so.  The second does so only when the buttons
  exist: the handler is subscribed in the constructor, the buttons are built by the first
  \<^verbatim>\<open>setupCustomMenubar\<close>, and in between the FOCUSED case of the setter reads
  \<^verbatim>\<open>customMenus[0]\<close> unguarded (the last block of the handler and
  \<^verbatim>\<open>getMenubarItemsDimensions\<close> do test \<^verbatim>\<open>this.customMenus\<close>).  On the example part
  without buttons the Alt release throws, at the handler and through the tracker alike,
  and the state FOCUSED is never committed.
\<close>

theorem alt_tap_without_buttons_throws:
  "focusState (example_part\<lparr>customMenus := None\<rparr>) = HIDDEN
   \<and> currentMenubarVisibility example_services = JString ''toggle''
   \<and> onModifierKeyToggled example_services alt_pressed (example_part\<lparr>customMenus := None\<rparr>) =
       Some (example_part\<lparr>customMenus := None, focusState := VISIBLE,
               modifierKeyStatus := Some alt_pressed,
               effects := [OnVisibilityChange_fire ZeroDimension, Container_style_visibility None]\<rparr>)
   \<and> onModifierKeyToggled example_services alt_released
        (example_part\<lparr>customMenus := None, focusState := VISIBLE,
           modifierKeyStatus := Some alt_pressed,
           effects := [OnVisibilityChange_fire ZeroDimension, Container_style_visibility None]\<rparr>) = None
   \<and> on_keydown example_services \<lparr>ev_altKey = True, ev_ctrlKey = False, ev_shiftKey = False\<rparr>
        \<lparr>keyStatus = initial_keyStatus, part = example_part\<lparr>customMenus := None\<rparr>\<rparr> =
       Some \<lparr>keyStatus = alt_pressed,
             part = example_part\<lparr>customMenus := None, focusState := VISIBLE,
               modifierKeyStatus := Some alt_pressed,
               effects := [OnVisibilityChange_fire ZeroDimension, Container_style_visibility None]\<rparr>\<rparr>
   \<and> on_keyup example_services \<lparr>ev_altKey = False, ev_ctrlKey = False, ev_shiftKey = False\<rparr>
        \<lparr>keyStatus = alt_pressed,
         part = example_part\<lparr>customMenus := None, focusState := VISIBLE,
               modifierKeyStatus := Some alt_pressed,
               effects := [OnVisibilityChange_fire ZeroDimension, Container_style_visibility None]\<rparr>\<rparr> = None"
  by (simp add: example_part_def example_services_def alt_pressed_def alt_released_def
      initial_keyStatus_def on_keydown_def on_keyup_def deliver_def keydown_def keyup_def
      onModifierKeyToggled_def currentMenubarVisibility_def currentEnableMenuBarMnemonics_def
      set_focusState_def isVisible_def isFocused_def isOpen_def showMenubar_def
      getMenubarItemsDimensions_def customMenu_at_def emit_def Let_def)

lemma title_decorations_only: "list_all is_title_decoration (title_decorations svc st s)"
  by (auto simp: title_decorations_def list_all_iff split: option.splits)

lemma keydown_without_alt:
  "\<not> ev_altKey e \<Longrightarrow> lastKeyPressed (fst (keydown e ks)) \<noteq> Some Alt"
  by (simp add: keydown_def Let_def)

lemma hidden_keydown_without_alt:
  assumes "focusState (part w) = HIDDEN" "currentMenubarVisibility svc = JString ''toggle''"
    "\<not> ev_altKey e"
  shows "\<exists>w1 ds. on_keydown svc e w = Some w1 \<and> focusState (part w1) = HIDDEN
           \<and> focusedMenu (part w1) = focusedMenu (part w)
           \<and> effects (part w1) = effects (part w) @ ds \<and> list_all is_title_decoration ds"
proof (cases "snd (keydown e (keyStatus w))")
  case None
  then have "on_keydown svc e w = Some (w\<lparr>keyStatus := fst (keydown e (keyStatus w))\<rparr>)"
    by (simp add: on_keydown_def deliver_def)
  then show ?thesis
    using assms(1) by simp
next
  case (Some st)
  then have st: "st = fst (keydown e (keyStatus w))"
    by (auto simp: keydown_def Let_def split: if_splits)
  then have "lastKeyPressed st \<noteq> Some Alt"
    using assms(3) keydown_without_alt by simp
  then have "onModifierKeyToggled svc st (part w) =
      Some ((part w)\<lparr>modifierKeyStatus := Some st,
                     effects := effects (part w) @ title_decorations svc st (part w)\<rparr>)"
    using assms by (intro hidden_without_alt)
  then have "on_keydown svc e w =
      Some \<lparr>keyStatus = fst (keydown e (keyStatus w)),
            part = (part w)\<lparr>modifierKeyStatus := Some st,
                     effects := effects (part w) @ title_decorations svc st (part w)\<rparr>\<rparr>"
    using Some by (simp add: on_keydown_def deliver_def)
  then show ?thesis
    using assms(1) title_decorations_only by simp
qed

text \<open>
  C3.  In toggle mode with the part HIDDEN, the key-down of Ctrl and then the key-down
  of Shift with Ctrl still held, Alt up in both, leave the part HIDDEN after each event,
  whatever the tracker held before.  Both handlers return, no menu becomes focused, and
  the only effects are the underlines of the titles: the bar is not shown.
\<close>

theorem chord_keeps_bar_hidden:
  assumes "focusState (part w) = HIDDEN"
    and "currentMenubarVisibility svc = JString ''toggle''"
  shows "\<exists>w1 w2 ds.
           on_keydown svc \<lparr>ev_altKey = False, ev_ctrlKey = True, ev_shiftKey = False\<rparr> w = Some w1
           \<and> focusState (part w1) = HIDDEN
           \<and> on_keydown svc \<lparr>ev_altKey = False, ev_ctrlKey = True, ev_shiftKey = True\<rparr> w1 = Some w2
           \<and> focusState (part w2) = HIDDEN
           \<and> focusedMenu (part w2) = focusedMenu (part w)
           \<and> effects (part w2) = effects (part w) @ ds \<and> list_all is_title_decoration ds"
proof -
  let ?e1 = "\<lparr>ev_altKey = False, ev_ctrlKey = True, ev_shiftKey = False\<rparr>"
  let ?e2 = "\<lparr>ev_altKey = False, ev_ctrlKey = True, ev_shiftKey = True\<rparr>"
  obtain w1 ds1 where w1: "on_keydown svc ?e1 w = Some w1" "focusState (part w1) = HIDDEN"
      "focusedMenu (part w1) = focusedMenu (part w)"
      "effects (part w1) = effects (part w) @ ds1" "list_all is_title_decoration ds1"
    using hidden_keydown_without_alt [OF assms, of ?e1] by auto
  obtain w2 ds2 where w2: "on_keydown svc ?e2 w1 = Some w2" "focusState (part w2) = HIDDEN"
      "focusedMenu (part w2) = focusedMenu (part w1)"
      "effects (part w2) = effects (part w1) @ ds2" "list_all is_title_decoration ds2"
    using hidden_keydown_without_alt [OF w1(2) assms(2), of ?e2] by auto
  have "effects (part w2) = effects (part w) @ (ds1 @ ds2)" "list_all is_title_decoration (ds1 @ ds2)"
    using w1 w2 by simp_all
  then show ?thesis
    using w1 w2 by metis
qed

theorem chord_keeps_bar_hidden_witness:
  "focusState (part \<lparr>keyStatus = initial_keyStatus, part = example_part\<rparr>) = HIDDEN
   \<and> currentMenubarVisibility example_services = JString ''toggle''
   \<and> (\<exists>w1 w2.
         on_keydown example_services \<lparr>ev_altKey = False, ev_ctrlKey = True, ev_shiftKey = False\<rparr>
           \<lparr>keyStatus = initial_keyStatus, part = example_part\<rparr> = Some w1
         \<and> focusState (part w1) = HIDDEN
         \<and> on_keydown example_services \<lparr>ev_altKey = False, ev_ctrlKey = True, ev_shiftKey = True\<rparr> w1 = Some w2
         \<and> focusState (part w2) = HIDDEN)"
proof -
  have a: "focusState (part \<lparr>keyStatus = initial_keyStatus, part = example_part\<rparr>) = HIDDEN"
    by (simp add: example_part_def)
  have b: "currentMenubarVisibility example_services = JString ''toggle''"
    by (simp add: currentMenubarVisibility_def example_services_def)
  show ?thesis
    using a b chord_keeps_bar_hidden [OF a b] by blast
qed

subsection \<open>Moving the focus along the buttons\<close>

lemma js_remainder_nonneg: "0 \<le> a \<Longrightarrow> 0 < b \<Longrightarrow> js_remainder a b = Some (a mod b)"
  by (cases "a = 0") (simp_all add: js_remainder_def)

lemma previous_of_next: "0 \<le> i \<Longrightarrow> i < n \<Longrightarrow> ((i + 1) mod n - 1 + n) mod n = (i::int)"
  by (simp add: mod_simps)

lemma move_focus_valid:
  assumes "customMenus s = Some ms" "0 \<le> j" "j < int (length ms)"
  shows "\<exists>s'. move_focus (Some j) fm s = Some s' \<and> customMenus s' = customMenus s \<and>
           focusState s' = focusState s \<and>
           (if isFocused s \<and> j \<noteq> index fm then map_option index (focusedMenu s') = Some j
            else s' = s)"
  using assms
  by (auto simp: move_focus_def showCustomMenu_def cleanupCustomMenu_def customMenu_at_def emit_def
      isFocused_def isOpen_def Let_def split: option.splits)

lemma focusNext_then_focusPrevious:
  assumes "customMenus s = Some ms" "focusedMenu s = Some fm"
    "0 \<le> index fm" "index fm < int (length ms)"
  shows "\<exists>s1 s2. focusNext s = Some s1 \<and> focusPrevious s1 = Some s2 \<and>
           map_option index (focusedMenu s2) = Some (index fm) \<and> focusState s2 = focusState s"
proof -
  let ?n = "int (length ms)"
  let ?i = "index fm"
  let ?j = "(?i + 1) mod ?n"
  have n: "0 < ?n"
    using assms by linarith
  have j: "0 \<le> ?j" "?j < ?n"
    using n by simp_all
  have next_eq: "focusNext s = move_focus (Some ?j) fm s"
    using assms n by (simp add: focusNext_def js_remainder_nonneg)
  obtain s1 where s1: "move_focus (Some ?j) fm s = Some s1" "customMenus s1 = customMenus s"
      "focusState s1 = focusState s"
      "if isFocused s \<and> ?j \<noteq> ?i then map_option index (focusedMenu s1) = Some ?j else s1 = s"
    using move_focus_valid [OF assms(1) j, of fm] by blast
  show ?thesis
  proof (cases "isFocused s \<and> ?j \<noteq> ?i")
    case True
    then obtain fm1 where fm1: "focusedMenu s1 = Some fm1" "index fm1 = ?j"
      using s1(4) by auto
    let ?k = "(?j - 1 + ?n) mod ?n"
    have k: "?k = ?i"
      using assms by (intro previous_of_next)
    have "0 \<le> ?j - 1 + ?n"
      using j n by linarith
    then have "js_remainder (?j - 1 + ?n) ?n = Some ?i"
      using js_remainder_nonneg [of "?j - 1 + ?n" ?n] n k by simp
    then have prev_eq: "focusPrevious s1 = move_focus (Some ?i) fm1 s1"
      using fm1 s1(2) assms(1) by (simp add: focusPrevious_def)
    have foc1: "isFocused s1"
      using True s1(3) by (simp add: isFocused_def)
    obtain s2 where s2: "move_focus (Some ?i) fm1 s1 = Some s2" "focusState s2 = focusState s1"
        "if isFocused s1 \<and> ?i \<noteq> index fm1 then map_option index (focusedMenu s2) = Some ?i
         else s2 = s1"
      using move_focus_valid [of s1 ms ?i fm1] s1(2) assms by auto
    have "map_option index (focusedMenu s2) = Some ?i"
      using s2(3) foc1 fm1 True by auto
    then show ?thesis
      using next_eq s1 prev_eq s2 by simp
  next
    case False
    then have same: "s1 = s"
      using s1(4) by simp
    let ?k = "(?i - 1 + ?n) mod ?n"
    have k: "0 \<le> ?k" "?k < ?n"
      using n by simp_all
    have "0 \<le> ?i - 1 + ?n"
      using assms n by linarith
    then have "js_remainder (?i - 1 + ?n) ?n = Some ?k"
      using js_remainder_nonneg [of "?i - 1 + ?n" ?n] n by simp
    then have prev_eq: "focusPrevious s = move_focus (Some ?k) fm s"
      using assms by (simp add: focusPrevious_def)
    obtain s2 where s2: "move_focus (Some ?k) fm s = Some s2" "focusState s2 = focusState s"
        "if isFocused s \<and> ?k \<noteq> ?i then map_option index (focusedMenu s2) = Some ?k else s2 = s"
      using move_focus_valid [OF assms(1) k, of fm] by blast
    have "\<not> isFocused s \<or> ?k = ?i"
    proof (cases "isFocused s")
      case True
      then have a: "?j = ?i"
        using False by simp
      have b: "(?j - 1 + ?n) mod ?n = ?i"
        using assms by (intro previous_of_next)
      show ?thesis
        using a b by metis
    next
      case False
      then show ?thesis by simp
    qed
    then have "s2 = s"
      using s2(3) by auto
    then show ?thesis
      using next_eq s1(1) same prev_eq s2 assms by simp
  qed
qed

lemma single_button_no_move:
  assumes "customMenus s = Some ms" "length ms = 1" "focusedMenu s = Some fm"
    "0 \<le> index fm" "index fm < int (length ms)"
  shows "focusNext s = Some s \<and> focusPrevious s = Some s"
proof -
  have "index fm = 0"
    using assms by simp
  then show ?thesis
    using assms by (simp add: focusNext_def focusPrevious_def js_remainder_def move_focus_def)
qed

lemma no_focused_menu_no_move:
  assumes "focusedMenu s = None"
  shows "focusNext s = Some s \<and> focusPrevious s = Some s"
  using assms by (simp add: focusNext_def focusPrevious_def)

text \<open>
  C4.  Let the part have \<open>n \<ge> 1\<close> buttons and a focused menu whose index \<open>i\<close> is a
  position among them.  Then focus-next followed by focus-previous both return, and the
  focused index is \<open>i\<close> again, with the focus state as before.  With exactly one button,
  or with no focused menu, focus-next and focus-previous return the part unchanged.
\<close>

theorem focusNext_focusPrevious_inverse:
  "(customMenus s = Some ms \<and> focusedMenu s = Some fm \<and> 0 \<le> index fm \<and> index fm < int (length ms) \<longrightarrow>
      (\<exists>s1 s2. focusNext s = Some s1 \<and> focusPrevious s1 = Some s2
         \<and> map_option index (focusedMenu s2) = Some (index fm) \<and> focusState s2 = focusState s))
   \<and> (customMenus s = Some ms \<and> length ms = 1 \<and> focusedMenu s = Some fm
        \<and> 0 \<le> index fm \<and> index fm < int (length ms) \<longrightarrow>
      focusNext s = Some s \<and> focusPrevious s = Some s)
   \<and> (focusedMenu s = None \<longrightarrow> focusNext s = Some s \<and> focusPrevious s = Some s)"
  using focusNext_then_focusPrevious [of s ms fm] single_button_no_move [of s ms fm]
    no_focused_menu_no_move [of s]
  by blast

theorem focusNext_focusPrevious_inverse_witness:
  "customMenus (example_part\<lparr>focusState := FOCUSED,
       focusedMenu := Some \<lparr>index = 2, holder = None, widget = None\<rparr>\<rparr>)
     = Some [\<lparr>title = ''File'', actions = Some []\<rparr>, \<lparr>title = ''Edit'', actions = Some []\<rparr>,
             \<lparr>title = ''Help'', actions = Some []\<rparr>]
   \<and> (\<exists>s1 s2.
         focusNext (example_part\<lparr>focusState := FOCUSED,
             focusedMenu := Some \<lparr>index = 2, holder = None, widget = None\<rparr>\<rparr>) = Some s1
         \<and> focusPrevious s1 = Some s2
         \<and> map_option index (focusedMenu s2) = Some 2 \<and> focusState s2 = FOCUSED)
   \<and> focusNext (example_part\<lparr>customMenus := Some [\<lparr>title = ''File'', actions = Some []\<rparr>],
         focusState := FOCUSED, focusedMenu := Some \<lparr>index = 0, holder = None, widget = None\<rparr>\<rparr>)
       = Some (example_part\<lparr>customMenus := Some [\<lparr>title = ''File'', actions = Some []\<rparr>],
         focusState := FOCUSED, focusedMenu := Some \<lparr>index = 0, holder = None, widget = None\<rparr>\<rparr>)
   \<and> focusNext example_part = Some example_part
   \<and> focusPrevious example_part = Some example_part"
proof -
  let ?s = "example_part\<lparr>focusState := FOCUSED,
       focusedMenu := Some \<lparr>index = 2, holder = None, widget = None\<rparr>\<rparr>"
  let ?ms = "[\<lparr>title = ''File'', actions = Some []\<rparr>, \<lparr>title = ''Edit'', actions = Some []\<rparr>,
             \<lparr>title = ''Help'', actions = Some []\<rparr>]"
  let ?t = "example_part\<lparr>customMenus := Some [\<lparr>title = ''File'', actions = Some []\<rparr>],
         focusState := FOCUSED, focusedMenu := Some \<lparr>index = 0, holder = None, widget = None\<rparr>\<rparr>"
  have a: "customMenus ?s = Some ?ms"
    by (simp add: example_part_def)
  have 1: "\<exists>s1 s2. focusNext ?s = Some s1 \<and> focusPrevious s1 = Some s2
         \<and> map_option index (focusedMenu s2) = Some 2 \<and> focusState s2 = FOCUSED"
    using a focusNext_focusPrevious_inverse
      [of ?s ?ms "\<lparr>index = 2, holder = None, widget = None\<rparr>"]
    by simp
  have 2: "focusNext ?t = Some ?t"
    using focusNext_focusPrevious_inverse
      [of ?t "[\<lparr>title = ''File'', actions = Some []\<rparr>]" "\<lparr>index = 0, holder = None, widget = None\<rparr>"]
    by simp
  have 3: "focusNext example_part = Some example_part \<and> focusPrevious example_part = Some example_part"
    using focusNext_focusPrevious_inverse [of example_part]
    by (simp add: example_part_def)
  show ?thesis
    using a 1 2 3 by blast
qed

section \<open>Properties of the action lists\<close>

subsection \<open>The open-recent entries\<close>

declare push_recent.simps [simp del]

lemma push_recent_eq:
  "push_recent svc commandId xs i result =
     result @ map (\<lambda>w. createOpenRecentMenuAction svc w commandId False)
                (drop i (take MAX_MENU_RECENT_ENTRIES xs))"
proof (induction svc commandId xs i result rule: push_recent.induct)
  case (1 svc commandId xs i result)
  show ?case
  proof (cases "i < MAX_MENU_RECENT_ENTRIES \<and> i < length xs")
    case True
    then have "i < length (take MAX_MENU_RECENT_ENTRIES xs)"
      by simp
    then have "drop i (take MAX_MENU_RECENT_ENTRIES xs) =
        xs ! i # drop (Suc i) (take MAX_MENU_RECENT_ENTRIES xs)"
      using True by (simp add: Cons_nth_drop_Suc [symmetric])
    then show ?thesis
      using True "1.IH" by (subst push_recent.simps) simp
  next
    case False
    then have "drop i (take MAX_MENU_RECENT_ENTRIES xs) = []"
      by auto
    then show ?thesis
      using False by (subst push_recent.simps) auto
  qed
qed

lemma getOpenRecentActions_eq:
  "getOpenRecentActions svc s =
     (case recentlyOpened s of
        None \<Rightarrow> []
      | Some ro \<Rightarrow>
          map (\<lambda>w. createOpenRecentMenuAction svc w ''openRecentWorkspace'' False)
            (take 5 (workspaces ro))
          @ (if workspaces ro \<noteq> [] then [Separator] else [])
          @ map (\<lambda>f. createOpenRecentMenuAction svc (Path f) ''openRecentFile'' False)
              (take 5 (files ro))
          @ (if files ro \<noteq> [] then [Separator] else []))"
  by (simp add: getOpenRecentActions_def push_recent_eq MAX_MENU_RECENT_ENTRIES_def Let_def
      take_map split: option.splits)

lemma createOpenRecentMenuAction_not_separator:
  "\<not> is_separator (createOpenRecentMenuAction svc w commandId isFile)"
  by (cases w) (simp_all add: createOpenRecentMenuAction_def)

text \<open>
  C6.  Before the action with the id \<^verbatim>\<open>workbench.action.openRecent\<close> the builder pushes:
  with a recently-opened list of \<open>W\<close> workspaces and \<open>F\<close> files, the entries of the first
  \<open>min W 5\<close> workspaces, a separator iff \<open>W > 0\<close>, the entries of the first \<open>min F 5\<close> files,
  a separator iff \<open>F > 0\<close> (so nothing when both are empty); with no list loaded, nothing.
  None of the entries is itself a separator.
\<close>

theorem open_recent_expansion:
  assumes "action_id nextAction = ''workbench.action.openRecent''"
  shows "(recentlyOpened s = Some ro \<longrightarrow>
            (\<exists>wes fes.
               insertActionsBefore svc s nextAction target =
                 target @ wes @ (if length (workspaces ro) > 0 then [Separator] else [])
                        @ fes @ (if length (files ro) > 0 then [Separator] else [])
               \<and> wes = map (\<lambda>w. createOpenRecentMenuAction svc w ''openRecentWorkspace'' False)
                          (take 5 (workspaces ro))
               \<and> fes = map (\<lambda>f. createOpenRecentMenuAction svc (Path f) ''openRecentFile'' False)
                          (take 5 (files ro))
               \<and> length wes = min (length (workspaces ro)) 5
               \<and> length fes = min (length (files ro)) 5
               \<and> list_all (\<lambda>a. \<not> is_separator a) (wes @ fes)))
         \<and> (recentlyOpened s = None \<longrightarrow> insertActionsBefore svc s nextAction target = target)"
  using assms
  by (auto simp: insertActionsBefore_def getOpenRecentActions_eq list_all_iff
      createOpenRecentMenuAction_not_separator)

theorem open_recent_expansion_witness:
  "action_id (MenuItemAction ''workbench.action.openRecent'' ''More'' False True)
     = ''workbench.action.openRecent''
   \<and> insertActionsBefore example_services example_part
        (MenuItemAction ''workbench.action.openRecent'' ''More'' False True) []
     = [OpenRecentAction ''openRecentWorkspace'' ''/w1'' ''/w1'' False,
        OpenRecentAction ''openRecentWorkspace'' ''workspace'' ''/w2.code-workspace'' False,
        OpenRecentAction ''openRecentWorkspace'' ''/w3'' ''/w3'' False,
        OpenRecentAction ''openRecentWorkspace'' ''/w4'' ''/w4'' False,
        OpenRecentAction ''openRecentWorkspace'' ''/w5'' ''/w5'' False,
        Separator,
        OpenRecentAction ''openRecentFile'' ''/a.txt'' ''/a.txt'' False,
        Separator]
   \<and> insertActionsBefore example_services (example_part\<lparr>recentlyOpened := None\<rparr>)
        (MenuItemAction ''workbench.action.openRecent'' ''More'' False True) [] = []"
proof -
  let ?a = "MenuItemAction ''workbench.action.openRecent'' ''More'' False True"
  let ?ro = "\<lparr>workspaces = [Path ''/w1'', WorkspaceIdentifier ''id2'' ''/w2.code-workspace'',
                            Path ''/w3'', Path ''/w4'', Path ''/w5'', Path ''/w6''],
              files = [''/a.txt'']\<rparr>"
  have h: "action_id ?a = ''workbench.action.openRecent''"
    by simp
  have 1: "recentlyOpened example_part = Some ?ro"
    by (simp add: example_part_def)
  have 2: "recentlyOpened (example_part\<lparr>recentlyOpened := None\<rparr>) = None"
    by simp
  have "insertActionsBefore example_services example_part ?a [] =
      [OpenRecentAction ''openRecentWorkspace'' ''/w1'' ''/w1'' False,
        OpenRecentAction ''openRecentWorkspace'' ''workspace'' ''/w2.code-workspace'' False,
        OpenRecentAction ''openRecentWorkspace'' ''/w3'' ''/w3'' False,
        OpenRecentAction ''openRecentWorkspace'' ''/w4'' ''/w4'' False,
        OpenRecentAction ''openRecentWorkspace'' ''/w5'' ''/w5'' False,
        Separator,
        OpenRecentAction ''openRecentFile'' ''/a.txt'' ''/a.txt'' False,
        Separator]"
    using 1 open_recent_expansion [OF h, of example_part ?ro example_services "[]"]
    by (simp add: createOpenRecentMenuAction_def example_services_def)
  moreover have "insertActionsBefore example_services (example_part\<lparr>recentlyOpened := None\<rparr>) ?a [] = []"
    using 2 open_recent_expansion [OF h, of "example_part\<lparr>recentlyOpened := None\<rparr>" ?ro example_services "[]"]
    by simp
  ultimately show ?thesis
    using h by simp
qed

subsection \<open>Separators in a list of entries\<close>

lemma leading_separator_iff: "leading_separator sep xs = (xs \<noteq> [] \<and> sep (hd xs))"
  by (cases xs) (simp_all add: leading_separator_def)

lemma trailing_separator_iff: "trailing_separator sep xs = (xs \<noteq> [] \<and> sep (last xs))"
  by (cases xs rule: rev_cases) (simp_all add: trailing_separator_def)

lemma adjacent_separators_Cons:
  "adjacent_separators sep (x # xs) =
     ((xs \<noteq> [] \<and> sep x \<and> sep (hd xs)) \<or> adjacent_separators sep xs)"
  by (cases xs) simp_all

lemma adjacent_separators_append:
  "adjacent_separators sep (xs @ ys) =
     (adjacent_separators sep xs \<or> adjacent_separators sep ys \<or>
      (xs \<noteq> [] \<and> ys \<noteq> [] \<and> sep (last xs) \<and> sep (hd ys)))"
proof (induction xs)
  case Nil
  then show ?case by simp
next
  case (Cons x xs)
  show ?case
  proof (cases "xs = []")
    case True
    then show ?thesis by (cases ys) auto
  next
    case False
    then show ?thesis
      using Cons.IH by (auto simp: adjacent_separators_Cons hd_append)
  qed
qed

lemma no_separators_not_adjacent:
  "list_all (\<lambda>x. \<not> sep x) xs \<Longrightarrow> \<not> adjacent_separators sep xs"
  by (induction xs) (auto simp: adjacent_separators_Cons)

lemma count_separators_append:
  "count_separators sep (xs @ ys) = count_separators sep xs + count_separators sep ys"
  by (simp add: count_separators_def)

lemma count_separators_none:
  "list_all (\<lambda>x. \<not> sep x) xs \<Longrightarrow> count_separators sep xs = 0"
  by (induction xs) (simp_all add: count_separators_def)

lemma block_no_separators:
  "xs \<noteq> [] \<Longrightarrow> list_all (\<lambda>x. \<not> sep x) xs \<Longrightarrow> block sep xs"
  by (simp add: block_def no_separators_not_adjacent list_all_iff)

lemma block_append: "block sep xs \<Longrightarrow> block sep ys \<Longrightarrow> block sep (xs @ ys)"
  by (auto simp: block_def adjacent_separators_append hd_append)

lemma block_separated:
  "block sep xs \<Longrightarrow> block sep ys \<Longrightarrow> sep S \<Longrightarrow> block sep (xs @ S # ys)"
  by (auto simp: block_def adjacent_separators_append adjacent_separators_Cons hd_append)

lemma block_well_separated:
  "block sep xs \<Longrightarrow>
     \<not> leading_separator sep xs \<and> \<not> trailing_separator sep xs \<and> \<not> adjacent_separators sep xs"
  by (simp add: block_def leading_separator_iff trailing_separator_iff)

text \<open>Blocks, each followed by a separator: all but the last separator stand between blocks.\<close>

lemma joined_blocks:
  assumes "blocks \<noteq> []" "list_all (block sep) blocks" "sep S"
  shows "\<exists>bs. concat (map (\<lambda>b. b @ [S]) blocks) = bs @ [S] \<and> block sep bs \<and>
           Suc (count_separators sep bs) =
             length blocks + sum_list (map (count_separators sep) blocks)"
  using assms
proof (induction blocks rule: list_nonempty_induct)
  case (single b)
  then show ?case by simp
next
  case (cons b blocks)
  then obtain bs where bs: "concat (map (\<lambda>b. b @ [S]) blocks) = bs @ [S]" "block sep bs"
      "Suc (count_separators sep bs) = length blocks + sum_list (map (count_separators sep) blocks)"
    by auto
  have "block sep (b @ S # bs)"
    using cons.prems bs(2) by (simp add: block_separated)
  moreover have "concat (map (\<lambda>b. b @ [S]) (b # blocks)) = (b @ S # bs) @ [S]"
    using bs(1) by simp
  moreover have "Suc (count_separators sep (b @ S # bs)) =
      length (b # blocks) + sum_list (map (count_separators sep) (b # blocks))"
    using bs(3) cons.prems(2) by (simp add: count_separators_def)
  ultimately show ?case by blast
qed

subsection \<open>The lists of \<open>updateActions\<close>\<close>

lemma open_recent_then_entry:
  assumes "\<not> is_separator e"
  shows "block is_separator (getOpenRecentActions svc s @ [e])"
proof (cases "recentlyOpened s")
  case None
  then show ?thesis
    using assms by (simp add: getOpenRecentActions_eq block_def)
next
  case (Some ro)
  let ?wes = "map (\<lambda>w. createOpenRecentMenuAction svc w ''openRecentWorkspace'' False)
                (take 5 (workspaces ro))"
  let ?fes = "map (\<lambda>f. createOpenRecentMenuAction svc (Path f) ''openRecentFile'' False)
                (take 5 (files ro))"
  have e: "block is_separator [e]"
    using assms by (simp add: block_def)
  have wes: "workspaces ro \<noteq> [] \<Longrightarrow> block is_separator ?wes"
    by (intro block_no_separators)
       (simp_all add: list_all_iff createOpenRecentMenuAction_not_separator)
  have fes: "files ro \<noteq> [] \<Longrightarrow> block is_separator ?fes"
    by (intro block_no_separators)
       (simp_all add: list_all_iff createOpenRecentMenuAction_not_separator)
  have rest: "block is_separator (?fes @ (if files ro \<noteq> [] then [Separator] else []) @ [e])"
    using e fes block_separated [of is_separator ?fes "[e]" Separator] by simp
  have "block is_separator
          (?wes @ (if workspaces ro \<noteq> [] then [Separator] else [])
             @ ?fes @ (if files ro \<noteq> [] then [Separator] else []) @ [e])"
    using rest wes
      block_separated [of is_separator ?wes
        "?fes @ (if files ro \<noteq> [] then [Separator] else []) @ [e]" Separator]
    by simp
  then show ?thesis
    using Some by (simp add: getOpenRecentActions_eq)
qed

lemma insertActionsBefore_then_entry:
  assumes "\<not> is_separator e"
  shows "\<exists>es. insertActionsBefore svc s a target @ [e] = target @ es \<and> block is_separator es
           \<and> count_separators is_separator es =
               (if action_id a = ''workbench.action.openRecent''
                then count_separators is_separator (getOpenRecentActions svc s) else 0)"
proof (cases "action_id a = ''workbench.action.openRecent''")
  case True
  then have "insertActionsBefore svc s a target @ [e] = target @ (getOpenRecentActions svc s @ [e])"
    by (simp add: insertActionsBefore_def)
  moreover have "count_separators is_separator (getOpenRecentActions svc s @ [e]) =
      count_separators is_separator (getOpenRecentActions svc s)"
    using assms by (simp add: count_separators_def)
  ultimately show ?thesis
    using True open_recent_then_entry [OF assms] by metis
next
  case False
  then have "insertActionsBefore svc s a target @ [e] = target @ [e]"
    by (simp add: insertActionsBefore_def)
  moreover have "block is_separator [e]" "count_separators is_separator [e] = 0"
    using assms by (simp_all add: block_def count_separators_def)
  ultimately show ?thesis
    using False by metis
qed

lemma actions_loop_shape:
  "actions_loop sub svc s as target = Some r \<Longrightarrow>
     \<exists>es. r = target @ es \<and> (as = [] \<or> block is_separator es) \<and> (as \<noteq> [] \<or> es = [])
       \<and> count_separators is_separator es =
           length (filter (\<lambda>a. action_id a = ''workbench.action.openRecent'') as)
           * count_separators is_separator (getOpenRecentActions svc s)"
proof (induction as arbitrary: target r)
  case Nil
  then show ?case by (simp add: count_separators_def)
next
  case (Cons a as)
  have "\<exists>e. \<not> is_separator e
          \<and> actions_loop sub svc s as (insertActionsBefore svc s a target @ [e]) = Some r"
  proof (cases a)
    case (MenuItemAction i l c en)
    then show ?thesis
      using Cons.prems
      by (intro exI [of _ "Action i (calculateActionLabel svc i l) (setCheckedStatus svc i c) en"])
         (simp add: Let_def)
  next
    case (SubmenuItemAction i l c en sm)
    then obtain submenuActions where "sub sm = Some submenuActions"
      using Cons.prems by (auto simp: Let_def split: option.splits)
    then show ?thesis
      using Cons.prems SubmenuItemAction
      by (intro exI [of _ "SubmenuAction l submenuActions"]) (simp add: Let_def)
  qed
  then obtain e where e: "\<not> is_separator e"
      "actions_loop sub svc s as (insertActionsBefore svc s a target @ [e]) = Some r"
    by blast
  obtain es1 where es1: "insertActionsBefore svc s a target @ [e] = target @ es1"
      "block is_separator es1"
      "count_separators is_separator es1 =
         (if action_id a = ''workbench.action.openRecent''
          then count_separators is_separator (getOpenRecentActions svc s) else 0)"
    using insertActionsBefore_then_entry [OF e(1)] by blast
  obtain es2 where es2: "r = (target @ es1) @ es2" "as = [] \<or> block is_separator es2"
      "as \<noteq> [] \<or> es2 = []"
      "count_separators is_separator es2 =
         length (filter (\<lambda>a. action_id a = ''workbench.action.openRecent'') as)
         * count_separators is_separator (getOpenRecentActions svc s)"
    using Cons.IH [of "target @ es1" r] e(2) es1(1) by auto
  have "block is_separator (es1 @ es2)"
    using es1(2) es2(2,3) block_append [of is_separator es1 es2] by auto
  moreover have "count_separators is_separator (es1 @ es2) =
      length (filter (\<lambda>a. action_id a = ''workbench.action.openRecent'') (a # as))
      * count_separators is_separator (getOpenRecentActions svc s)"
    using es1(3) es2(4) by (simp add: count_separators_append)
  ultimately show ?case
    using es2(1) by auto
qed

lemma open_recent_slots_Cons:
  "open_recent_slots (g # gs) =
     length (filter (\<lambda>a. action_id a = ''workbench.action.openRecent'') (snd g))
     + open_recent_slots gs"
  by (simp add: open_recent_slots_def)

lemma groups_loop_shape:
  "groups_loop sub svc s gs target = Some r \<Longrightarrow> list_all (\<lambda>g. snd g \<noteq> []) gs \<Longrightarrow>
     \<exists>blocks. r = target @ concat (map (\<lambda>b. b @ [Separator]) blocks)
       \<and> length blocks = length gs \<and> list_all (block is_separator) blocks
       \<and> sum_list (map (count_separators is_separator) blocks) =
           open_recent_slots gs * count_separators is_separator (getOpenRecentActions svc s)"
proof (induction gs arbitrary: target r)
  case Nil
  then show ?case by (simp add: open_recent_slots_def)
next
  case (Cons g gs)
  obtain t1 where t1: "actions_loop sub svc s (snd g) target = Some t1"
      "groups_loop sub svc s gs (t1 @ [Separator]) = Some r"
    using Cons.prems(1) by (auto split: option.splits)
  obtain b where b: "t1 = target @ b" "block is_separator b"
      "count_separators is_separator b =
         length (filter (\<lambda>a. action_id a = ''workbench.action.openRecent'') (snd g))
         * count_separators is_separator (getOpenRecentActions svc s)"
    using actions_loop_shape [OF t1(1)] Cons.prems(2) by auto
  obtain blocks where blocks: "r = (t1 @ [Separator]) @ concat (map (\<lambda>b. b @ [Separator]) blocks)"
      "length blocks = length gs" "list_all (block is_separator) blocks"
      "sum_list (map (count_separators is_separator) blocks) =
         open_recent_slots gs * count_separators is_separator (getOpenRecentActions svc s)"
    using Cons.IH [OF t1(2)] Cons.prems(2) by auto
  have "r = target @ concat (map (\<lambda>b. b @ [Separator]) (b # blocks))"
    using blocks(1) b(1) by simp
  moreover have "length (b # blocks) = length (g # gs)"
    using blocks(2) by simp
  moreover have "list_all (block is_separator) (b # blocks)"
    using blocks(3) b(2) by simp
  moreover have "sum_list (map (count_separators is_separator) (b # blocks)) =
      open_recent_slots (g # gs) * count_separators is_separator (getOpenRecentActions svc s)"
    using blocks(4) b(3) by (simp add: open_recent_slots_Cons add_mult_distrib)
  ultimately show ?case by blast
qed

lemma updateActions_shape:
  assumes "updateActions (Suc fuel) svc s menu = Some acts"
    and "getActions svc menu \<noteq> []"
    and "list_all (\<lambda>g. snd g \<noteq> []) (getActions svc menu)"
  shows "block is_separator acts
         \<and> Suc (count_separators is_separator acts) =
             length (getActions svc menu)
             + open_recent_slots (getActions svc menu)
               * count_separators is_separator (getOpenRecentActions svc s)"
proof -
  obtain r where r: "groups_loop (updateActions fuel svc s) svc s (getActions svc menu) [] = Some r"
      "acts = butlast r"
    using assms(1) by auto
  obtain blocks where blocks: "r = concat (map (\<lambda>b. b @ [Separator]) blocks)"
      "length blocks = length (getActions svc menu)" "list_all (block is_separator) blocks"
      "sum_list (map (count_separators is_separator) blocks) =
         open_recent_slots (getActions svc menu)
         * count_separators is_separator (getOpenRecentActions svc s)"
    using groups_loop_shape [OF r(1) assms(3)] by auto
  have "blocks \<noteq> []"
    using blocks(2) assms(2) by auto
  then obtain bs where bs: "concat (map (\<lambda>b. b @ [Separator]) blocks) = bs @ [Separator]"
      "block is_separator bs"
      "Suc (count_separators is_separator bs) =
         length blocks + sum_list (map (count_separators is_separator) blocks)"
    using joined_blocks [of blocks is_separator Separator] blocks(3) by auto
  have "acts = bs"
    using r(2) blocks(1) bs(1) by simp
  then show ?thesis
    using bs(2,3) blocks(2,4) by simp
qed

text \<open>\<open>updateActions\<close> returns when it may make as many nested calls as sub-menus nest.\<close>

lemma actions_loop_returns:
  "list_all (\<lambda>a. case a of SubmenuItemAction i l c e sm \<Rightarrow> sub sm \<noteq> None
                          | MenuItemAction i l c e \<Rightarrow> True) as \<Longrightarrow>
     actions_loop sub svc s as target \<noteq> None"
proof (induction as arbitrary: target)
  case Nil
  then show ?case by simp
next
  case (Cons a as)
  then show ?case
    by (cases a) (auto simp: Let_def)
qed

lemma groups_loop_returns:
  "list_all (\<lambda>g. list_all (\<lambda>a. case a of SubmenuItemAction i l c e sm \<Rightarrow> sub sm \<noteq> None
                                        | MenuItemAction i l c e \<Rightarrow> True) (snd g)) gs \<Longrightarrow>
     groups_loop sub svc s gs target \<noteq> None"
proof (induction gs arbitrary: target)
  case Nil
  then show ?case by simp
next
  case (Cons g gs)
  have here: "list_all (\<lambda>a. case a of SubmenuItemAction i l c e sm \<Rightarrow> sub sm \<noteq> None
                                   | MenuItemAction i l c e \<Rightarrow> True) (snd g)"
    and rest: "list_all (\<lambda>g. list_all (\<lambda>a. case a of
                   SubmenuItemAction i l c e sm \<Rightarrow> sub sm \<noteq> None
                 | MenuItemAction i l c e \<Rightarrow> True) (snd g)) gs"
    using Cons.prems by (simp_all only: list.pred_inject)
  have "actions_loop sub svc s (snd g) target \<noteq> None"
    using here by (rule actions_loop_returns)
  then obtain t1 where t1: "actions_loop sub svc s (snd g) target = Some t1"
    by auto
  have "groups_loop sub svc s gs (t1 @ [Separator]) \<noteq> None"
    using rest by (rule Cons.IH)
  then show ?case
    using t1 by simp
qed

lemma updateActions_returns:
  "nested_within d svc menu \<Longrightarrow> updateActions (Suc d) svc s menu \<noteq> None"
proof (induction d arbitrary: menu)
  case 0
  have "list_all (\<lambda>g. list_all (\<lambda>a. case a of
            SubmenuItemAction i l c e sm \<Rightarrow> updateActions 0 svc s sm \<noteq> None
          | MenuItemAction i l c e \<Rightarrow> True) (snd g)) (getActions svc menu)"
    using "0.prems" by (auto simp: list_all_iff split: MenuItem.splits)
  then show ?case
    using groups_loop_returns [of "updateActions 0 svc s" "getActions svc menu" svc s "[]"]
    by auto
next
  case (Suc d)
  have "list_all (\<lambda>g. list_all (\<lambda>a. case a of
            SubmenuItemAction i l c e sm \<Rightarrow> updateActions (Suc d) svc s sm \<noteq> None
          | MenuItemAction i l c e \<Rightarrow> True) (snd g)) (getActions svc menu)"
    using Suc.prems Suc.IH by (auto simp: list_all_iff split: MenuItem.splits)
  then show ?case
    using groups_loop_returns [of "updateActions (Suc d) svc s" "getActions svc menu" svc s "[]"]
    by auto
qed

subsection \<open>The items of \<open>getMenubarMenus\<close>\<close>

lemma menubar_groups_loop_eq:
  "menubar_groups_loop svc gs items =
     items @ concat (map (\<lambda>b. b @ [MenubarMenuItemSeparator])
                       (map (\<lambda>g. menubar_group_items svc (snd g)) gs))"
  by (induction gs arbitrary: items) simp_all

lemma menubar_group_items_block:
  "as \<noteq> [] \<Longrightarrow> block is_menubar_separator (menubar_group_items svc as)"
  by (intro block_no_separators) (simp_all add: menubar_group_items_def list_all_iff)

lemma menubar_group_items_count:
  "count_separators is_menubar_separator (menubar_group_items svc as) = 0"
  by (intro count_separators_none) (simp add: menubar_group_items_def list_all_iff)

lemma menubarMenu_items_shape:
  assumes "getActions svc menu \<noteq> []"
    and "list_all (\<lambda>g. snd g \<noteq> []) (getActions svc menu)"
  shows "block is_menubar_separator (menubarMenu_items svc menu)
         \<and> Suc (count_separators is_menubar_separator (menubarMenu_items svc menu)) =
             length (getActions svc menu)"
proof -
  let ?blocks = "map (\<lambda>g. menubar_group_items svc (snd g)) (getActions svc menu)"
  have "list_all (block is_menubar_separator) ?blocks"
    using assms(2) by (simp add: list_all_iff menubar_group_items_block)
  moreover have "?blocks \<noteq> []"
    using assms(1) by simp
  ultimately obtain bs where bs:
      "concat (map (\<lambda>b. b @ [MenubarMenuItemSeparator]) ?blocks) = bs @ [MenubarMenuItemSeparator]"
      "block is_menubar_separator bs"
      "Suc (count_separators is_menubar_separator bs) =
         length ?blocks + sum_list (map (count_separators is_menubar_separator) ?blocks)"
    using joined_blocks [of ?blocks is_menubar_separator MenubarMenuItemSeparator] by auto
  have "sum_list (map (count_separators is_menubar_separator) ?blocks) = 0"
    by (simp add: menubar_group_items_count comp_def)
  moreover have "menubarMenu_items svc menu = bs"
    using bs(1) by (simp add: menubarMenu_items_def menubar_groups_loop_eq Let_def)
  ultimately show ?thesis
    using bs(2,3) by simp
qed

text \<open>
  C5, as the claim has it, fails twice.  The Edit menu of the example has an empty first
  group, and its list starts with a separator: the lists are not free of leading,
  trailing and doubled separators regardless of group emptiness.  The File menu has two
  groups, none empty, and its list has three separators, not one: the entries pushed
  before the open-recent action bring their own.
\<close>

theorem separators_counterexample:
  "map_option (leading_separator is_separator)
     (updateActions (Suc 0) example_services example_part ''Edit'') = Some True
   \<and> leading_separator is_menubar_separator (menubarMenu_items example_services ''Edit'')
   \<and> list_all (\<lambda>g. snd g \<noteq> []) (getActions example_services ''File'')
   \<and> length (getActions example_services ''File'') = 2
   \<and> map_option (count_separators is_separator)
       (updateActions (Suc (Suc 0)) example_services example_part ''File'') = Some 3"
  by (simp add: example_services_def example_part_def insertActionsBefore_def
      getOpenRecentActions_eq leading_separator_def count_separators_def
      createOpenRecentMenuAction_def menubarMenu_items_def menubar_group_items_def)

text \<open>
  C5, amended.  Let the registry yield \<open>n \<ge> 1\<close> groups for a menu, none of them empty,
  and let sub-menus nest at most \<open>d\<close> deep below it.  Then \<open>updateActions\<close> returns a list
  with no leading separator, no trailing separator and no two adjacent separators, and
  the number of its separators is \<open>n - 1\<close> plus, for every action of the groups with the
  open-recent id, the separators of the open-recent entries (so exactly \<open>n - 1\<close> when no
  such action is there or nothing was recently opened).  The items \<open>getMenubarMenus\<close>
  builds for the menu have no leading, trailing or adjacent separators, and exactly
  \<open>n - 1\<close> separators.
\<close>

theorem built_lists_separators:
  assumes "nested_within d svc menu"
    and "getActions svc menu \<noteq> []"
    and "list_all (\<lambda>g. snd g \<noteq> []) (getActions svc menu)"
  shows "(\<exists>acts. updateActions (Suc d) svc s menu = Some acts
           \<and> \<not> leading_separator is_separator acts
           \<and> \<not> trailing_separator is_separator acts
           \<and> \<not> adjacent_separators is_separator acts
           \<and> Suc (count_separators is_separator acts) =
               length (getActions svc menu)
               + open_recent_slots (getActions svc menu)
                 * count_separators is_separator (getOpenRecentActions svc s))
         \<and> \<not> leading_separator is_menubar_separator (menubarMenu_items svc menu)
         \<and> \<not> trailing_separator is_menubar_separator (menubarMenu_items svc menu)
         \<and> \<not> adjacent_separators is_menubar_separator (menubarMenu_items svc menu)
         \<and> Suc (count_separators is_menubar_separator (menubarMenu_items svc menu)) =
             length (getActions svc menu)"
proof -
  obtain acts where acts: "updateActions (Suc d) svc s menu = Some acts"
    using updateActions_returns [OF assms(1), of s] by auto
  have "block is_separator acts"
      "Suc (count_separators is_separator acts) =
         length (getActions svc menu)
         + open_recent_slots (getActions svc menu)
           * count_separators is_separator (getOpenRecentActions svc s)"
    using updateActions_shape [OF acts assms(2,3)] by simp_all
  moreover have "block is_menubar_separator (menubarMenu_items svc menu)"
      "Suc (count_separators is_menubar_separator (menubarMenu_items svc menu)) =
         length (getActions svc menu)"
    using menubarMenu_items_shape [OF assms(2,3)] by simp_all
  ultimately show ?thesis
    using acts block_well_separated [of is_separator acts]
      block_well_separated [of is_menubar_separator "menubarMenu_items svc menu"]
    by blast
qed

theorem built_lists_separators_witness:
  "nested_within (Suc 0) example_services ''File''
   \<and> getActions example_services ''File'' \<noteq> []
   \<and> list_all (\<lambda>g. snd g \<noteq> []) (getActions example_services ''File'')
   \<and> (\<exists>acts. updateActions (Suc (Suc 0)) example_services example_part ''File'' = Some acts
         \<and> \<not> leading_separator is_separator acts
         \<and> \<not> trailing_separator is_separator acts
         \<and> \<not> adjacent_separators is_separator acts
         \<and> count_separators is_separator acts = 3)
   \<and> count_separators is_menubar_separator (menubarMenu_items example_services ''File'') = 1"
proof -
  have a: "nested_within (Suc 0) example_services ''File''"
    by (simp add: example_services_def)
  have b: "getActions example_services ''File'' \<noteq> []"
    by (simp add: example_services_def)
  have c: "list_all (\<lambda>g. snd g \<noteq> []) (getActions example_services ''File'')"
    by (simp add: example_services_def)
  have d: "length (getActions example_services ''File'') = 2"
      "open_recent_slots (getActions example_services ''File'') = 1"
    by (simp_all add: example_services_def open_recent_slots_def)
  have e: "count_separators is_separator (getOpenRecentActions example_services example_part) = 2"
    by (simp add: getOpenRecentActions_eq example_part_def count_separators_def
        createOpenRecentMenuAction_def)
  show ?thesis
    using a b c built_lists_separators [OF a b c, of example_part]
    by (simp add: d e)
qed

end
